theory Spec2Isabelle
  imports Complex_Main "HOL-Library.Sublist"
begin

section \<open>Data model of \<open>src/index.tsx\<close>\<close>

text \<open>
  A JavaScript \<open>number\<close> that has passed \<open>Number.isFinite\<close> is modelled as a \<open>real\<close>.
  Where the program decides a branch on computed numbers, in the tolerance test of the
  period locking and in the envelope fit, every operation is the IEEE 754 double
  operation: the exact result rounded to the nearest double, ties to even (section
  \<open>Double arithmetic\<close>). The other stages compute their values in exact arithmetic.
  Results of magnitude \<open>2^1024\<close> or more, where a double operation gives an infinity,
  are outside the model. Array lengths and indices are \<open>nat\<close>; an index that the source
  may drive below zero is an \<open>int\<close>. Field names carry a short prefix where the source
  uses one-letter keys (\<open>t\<close>, \<open>x\<close>, \<open>y\<close>, \<open>A\<close>, \<open>C\<close>) or reuses a key in two interfaces
  (\<open>beta\<close>).
\<close>

record DataPoint =
  time :: real
  voltage :: real

record SignalMetrics =
  frequencyKhz :: real
  m_beta :: real
  lambda :: real
  periodUs :: real
  validCycles :: nat

record FitParams =
  fit_A :: real
  fit_beta :: real
  fit_C :: real

text \<open>The element type \<open>{ t: number, idx: number }\<close> of \<open>rawCrossings\<close> and \<open>validCrossings\<close>.\<close>

record Crossing =
  c_t :: real
  c_idx :: nat

text \<open>The element type \<open>{ x: number, y: number }\<close> of \<open>peaks\<close>.\<close>

record Peak =
  p_x :: real
  p_y :: real

text \<open>The object returned by \<open>processSignal\<close> (keys \<open>t\<close>, \<open>u_raw\<close>, \<open>u_smooth\<close>, \<open>peaks\<close>,
  \<open>zeroCrossings\<close>, \<open>meanVoltage\<close>, \<open>avgPeriodUs\<close>, \<open>isInverted\<close>).\<close>

record Processed =
  r_t :: "real list"
  r_u_raw :: "real list"
  r_u_smooth :: "real list"
  r_peaks :: "Peak list"
  r_zeroCrossings :: "Crossing list"
  r_meanVoltage :: real
  r_avgPeriodUs :: real
  r_isInverted :: bool

text \<open>The object \<open>{ fit, metrics }\<close> of the \<open>fitResults\<close> hook.\<close>

record FitResults =
  fit :: "FitParams option"
  metrics :: "SignalMetrics option"

section \<open>Double arithmetic\<close>

text \<open>
  \<open>rne\<close> rounds a real to the nearest integer, a tie to the even one. \<open>ulp x\<close> is the
  spacing of the doubles around \<open>x\<close>: \<open>2^(e - 52)\<close> for \<open>2^e \<le> |x| < 2^(e + 1)\<close>, and
  \<open>2^(-1074)\<close> below the normal range. \<open>rnd\<close> rounds a real to a double, and the four
  operations of the source on numbers are the exact operations followed by \<open>rnd\<close>.
  \<open>Math.log\<close> and \<open>Math.exp\<close> are taken as correctly rounded.
\<close>

definition rne :: "real \<Rightarrow> int" where
  "rne q =
     (let f = \<lfloor>q\<rfloor>; d = q - of_int f
      in if d < 1 / 2 then f
         else if d > 1 / 2 then f + 1
         else if even f then f else f + 1)"

definition ulp :: "real \<Rightarrow> real" where
  "ulp x = 2 powi (max \<lfloor>log 2 \<bar>x\<bar>\<rfloor> (- 1022) - 52)"

definition rnd :: "real \<Rightarrow> real" where
  "rnd x = (if x = 0 then 0 else of_int (rne (x / ulp x)) * ulp x)"

definition d_add :: "real \<Rightarrow> real \<Rightarrow> real" where
  "d_add a b = rnd (a + b)"

definition d_sub :: "real \<Rightarrow> real \<Rightarrow> real" where
  "d_sub a b = rnd (a - b)"

definition d_mul :: "real \<Rightarrow> real \<Rightarrow> real" where
  "d_mul a b = rnd (a * b)"

definition d_div :: "real \<Rightarrow> real \<Rightarrow> real" where
  "d_div a b = rnd (a / b)"


definition Math_log :: "real \<Rightarrow> real" where
  "Math_log x = rnd (ln x)"

definition Math_exp :: "real \<Rightarrow> real" where
  "Math_exp x = rnd (exp x)"

section \<open>Parsing\<close>

text \<open>
  The value of a JavaScript \<open>number\<close> where it may still fail \<open>Number.isFinite\<close>,
  which holds exactly of the values \<open>Fin v\<close>.
\<close>

datatype jsnum = NaN | PosInfinity | NegInfinity | Fin real

text \<open>
  Strings are lists of 8-bit characters, read as code units below 256. The white space
  of \<open>trim\<close>, of the class \<open>\s\<close> and of \<open>parseFloat\<close> in that range: tab, line feed,
  vertical tab, form feed, carriage return, space and the no-break space.
\<close>

definition isWhiteSpace :: "char \<Rightarrow> bool" where
  "isWhiteSpace c =
     (c \<in> set [CHR 0x09, CHR 0x0A, CHR 0x0B, CHR 0x0C, CHR 0x0D, CHR 0x20, CHR 0xA0])"

definition isDigit :: "char \<Rightarrow> bool" where
  "isDigit c = (c \<in> set ''0123456789'')"

definition trim :: "string \<Rightarrow> string" where
  "trim s = rev (dropWhile isWhiteSpace (rev (dropWhile isWhiteSpace s)))"

text \<open>\<open>s.split(c)\<close> for a one-character separator: the empty string gives one empty piece.\<close>

fun split_on :: "char \<Rightarrow> string \<Rightarrow> string list" where
  "split_on c [] = [[]]"
| "split_on c (x # xs) =
     (if x = c then [] # split_on c xs
      else (case split_on c xs of
              [] \<Rightarrow> [[x]]
            | piece # pieces \<Rightarrow> (x # piece) # pieces))"

text \<open>
  \<open>s.split(/\s+/)\<close>: the pieces between maximal runs of white space, with an empty
  first or last piece when the string starts or ends with white space.
\<close>

function split_ws :: "string \<Rightarrow> string list" where
  "split_ws s =
     (let tok = takeWhile (\<lambda>c. \<not> isWhiteSpace c) s;
          rest = dropWhile (\<lambda>c. \<not> isWhiteSpace c) s
      in if rest = [] then [tok] else tok # split_ws (dropWhile isWhiteSpace rest))"
  by pat_completeness auto
termination
proof (relation "measure length")
  show "wf (measure length)" by simp
next
  fix s tok rest :: string
  assume rest: "rest = dropWhile (\<lambda>c. \<not> isWhiteSpace c) s" and ne: "rest \<noteq> []"
  from ne obtain c cs where cs: "rest = c # cs" by (cases rest) auto
  have "\<not> \<not> isWhiteSpace (hd (dropWhile (\<lambda>c. \<not> isWhiteSpace c) s))"
    using ne unfolding rest by (rule hd_dropWhile)
  then have "isWhiteSpace c"
    unfolding rest [symmetric] cs by simp
  then have "length (dropWhile isWhiteSpace rest) \<le> length cs"
    unfolding cs by (simp add: length_dropWhile_le)
  also have "length cs < length rest" unfolding cs by simp
  also have "length rest \<le> length s" unfolding rest by (rule length_dropWhile_le)
  finally show "(dropWhile isWhiteSpace rest, s) \<in> measure length" by simp
qed

declare split_ws.simps [simp del]

text \<open>
  \<open>parseFloat\<close>, after the ECMAScript definition: leading white space is skipped, then
  the longest prefix that is a \<open>StrDecimalLiteral\<close> is read (an optional sign, then
  \<open>Infinity\<close>, or digits with an optional fraction and an optional exponent part;
  an exponent indicator without digits is not part of the literal); no such prefix
  gives \<open>NaN\<close>. The value is the exact decimal value; a magnitude that rounds
  beyond the largest double, that is one of at least \<open>2^1024 - 2^970\<close>, gives an
  infinity.
\<close>

definition digitsVal :: "string \<Rightarrow> nat" where
  "digitsVal ds = foldl (\<lambda>a c. 10 * a + (of_char c - 48)) 0 ds"

definition strip_sign :: "string \<Rightarrow> bool \<times> string" where
  "strip_sign s =
     (case s of
        [] \<Rightarrow> (False, s)
      | c # cs \<Rightarrow>
          if c = CHR ''-'' then (True, cs)
          else if c = CHR ''+'' then (False, cs)
          else (False, s))"

definition exponentPart :: "string \<Rightarrow> int" where
  "exponentPart s =
     (case s of
        [] \<Rightarrow> 0
      | c # cs \<Rightarrow>
          if c = CHR ''e'' \<or> c = CHR ''E'' then
            (case strip_sign cs of (neg, ds) \<Rightarrow>
               let ed = takeWhile isDigit ds
               in if ed = [] then 0
                  else if neg then - int (digitsVal ed) else int (digitsVal ed))
          else 0)"

definition toNumber :: "real \<Rightarrow> jsnum" where
  "toNumber v =
     (if v \<ge> 2 ^ 1024 - 2 ^ 970 then PosInfinity
      else if v \<le> - (2 ^ 1024 - 2 ^ 970) then NegInfinity
      else Fin v)"

definition parseFloat :: "string \<Rightarrow> jsnum" where
  "parseFloat inputString =
     (case strip_sign (dropWhile isWhiteSpace inputString) of (neg, s) \<Rightarrow>
        if take 8 s = ''Infinity'' then (if neg then NegInfinity else PosInfinity)
        else
          (let ip = takeWhile isDigit s;
               r1 = dropWhile isDigit s;
               (fp, r2) = (case r1 of
                             [] \<Rightarrow> ([], r1)
                           | c # cs \<Rightarrow>
                               if c = CHR ''.''
                               then (takeWhile isDigit cs, dropWhile isDigit cs)
                               else ([], r1))
           in if ip = [] \<and> fp = [] then NaN
              else
                (let e = exponentPart r2;
                     mantissa = real (digitsVal (ip @ fp)) / 10 ^ length fp;
                     mv = (if e \<ge> 0 then mantissa * 10 ^ nat e else mantissa / 10 ^ nat (- e))
                 in toNumber (if neg then - mv else mv))))"

text \<open>
  One iteration of the loop of \<open>parseFileContent\<close>: \<open>None\<close> is a line that pushes
  nothing (a \<open>continue\<close>, or fewer than two parts). \<open>line_parts\<close> is the array \<open>parts\<close>.
  The check \<open>!Number.isFinite(t) || !Number.isFinite(v1)\<close> is the case distinction on
  the two parsed values; the constant \<open>1e30\<close> is read as the real \<open>10^30\<close>.
\<close>

definition line_parts :: "string \<Rightarrow> string list" where
  "line_parts line =
     (let trimmed = trim line;
          cleanLine = map (\<lambda>c. if c = CHR '','' then CHR ''.'' else c) trimmed
      in split_ws cleanLine)"

definition parse_line :: "string \<Rightarrow> DataPoint option" where
  "parse_line line =
     (let trimmed = trim line in
      if trimmed = [] then None
      else if take 1 trimmed = [CHR 0x22] \<or> take 1 trimmed = [CHR 0x27] then None
      else
        (let parts = line_parts line in
         if length parts \<ge> 2 then
           (case (parseFloat (parts ! 0), parseFloat (parts ! 1)) of
              (Fin t, Fin v1) \<Rightarrow>
                if \<bar>v1\<bar> > 10 ^ 30 then None
                else
                  (let voltage =
                         (if length parts \<ge> 3 then
                            (case parseFloat (parts ! 2) of
                               Fin v2 \<Rightarrow> if \<bar>v2\<bar> < 10 ^ 30 then (v1 + v2) / 2 else v1
                             | _ \<Rightarrow> v1)
                          else v1)
                   in Some \<lparr>time = t, voltage = voltage\<rparr>)
            | _ \<Rightarrow> None)
         else None))"

definition parseFileContent :: "string \<Rightarrow> DataPoint list" where
  "parseFileContent content =
     fold (\<lambda>line data. case parse_line line of None \<Rightarrow> data | Some d \<Rightarrow> data @ [d])
       (split_on (CHR 0x0A) content) []"

section \<open>Smoothing\<close>

text \<open>
  \<open>smoothSignal\<close>: the early return for \<open>windowSize <= 1\<close>, then the outer loop over \<open>i\<close>
  pushing one mean per sample and the inner loop over \<open>j\<close> accumulating \<open>sum\<close>.
  \<open>Math.floor(windowSize / 2)\<close> is \<open>windowSize div 2\<close> on an integer window.
\<close>

definition smoothSignal :: "real list \<Rightarrow> int \<Rightarrow> real list" where
  "smoothSignal vals windowSize =
     (if windowSize \<le> 1 then vals
      else fold (\<lambda>i smoothed.
             let start = max 0 (int i - windowSize div 2);
                 end' = min (int (length vals)) (int i + windowSize div 2 + 1);
                 sum = fold (\<lambda>j sum. sum + vals ! j) [nat start..<nat end'] 0
             in smoothed @ [sum / real_of_int (end' - start)])
           [0..<length vals] [])"

section \<open>The stages of \<open>processSignal\<close>\<close>

text \<open>Step 1: times in microseconds, voltages, and the manual inversion.\<close>

definition prep_t_raw :: "DataPoint list \<Rightarrow> real list" where
  "prep_t_raw rawData = map (\<lambda>d. time d * 1000000) rawData"

definition prep_u_original :: "DataPoint list \<Rightarrow> bool \<Rightarrow> real list" where
  "prep_u_original rawData invert =
     (let u_original = map (\<lambda>d. voltage d) rawData
      in if invert then map (\<lambda>v. - v) u_original else u_original)"

text \<open>
  Step 3: the DC offset, the mean of the last \<open>max(floor(length * 0.20), 10)\<close> samples.
  \<open>slice(-k)\<close> keeps the last \<open>k\<close> elements, or the whole array when it is shorter.
\<close>

definition calc_meanVoltage :: "real list \<Rightarrow> real" where
  "calc_meanVoltage u_processed =
     (let tailSampleCount = max (nat \<lfloor>real (length u_processed) * 0.20\<rfloor>) 10;
          tailData = drop (length u_processed - tailSampleCount) u_processed
      in foldl (\<lambda>a b. a + b) 0 tailData / real (length tailData))"

text \<open>Step 4: every rising crossing of the mean, with its interpolated time.\<close>

definition find_rawCrossings :: "real list \<Rightarrow> real list \<Rightarrow> real \<Rightarrow> Crossing list" where
  "find_rawCrossings t_raw u_processed meanVoltage =
     fold (\<lambda>i rawCrossings.
            if u_processed ! i \<le> meanVoltage \<and> u_processed ! (i + 1) > meanVoltage then
              (let y1 = u_processed ! i;
                   y2 = u_processed ! (i + 1);
                   t1 = t_raw ! i;
                   t2 = t_raw ! (i + 1);
                   fraction = (meanVoltage - y1) / (y2 - y1);
                   t_cross = t1 + fraction * (t2 - t1)
               in rawCrossings @ [\<lparr>c_t = t_cross, c_idx = i\<rparr>])
            else rawCrossings)
          [0..<length u_processed - 1] []"

text \<open>
  Step 5: period locking. \<open>lock_loop\<close> is the \<open>for\<close> loop from \<open>i = 2\<close>: its third
  argument is \<open>validCrossings\<close> so far, its fourth the raw crossings from index \<open>i\<close> on;
  the \<open>else\<close> branch is the \<open>break\<close>. The two subtractions and the product are double
  operations; \<open>Math.abs\<close> and the comparison are exact on doubles.
\<close>

fun lock_loop :: "real \<Rightarrow> real \<Rightarrow> Crossing list \<Rightarrow> Crossing list \<Rightarrow> Crossing list" where
  "lock_loop T_ref periodTolerancePct validCrossings [] = validCrossings"
| "lock_loop T_ref periodTolerancePct validCrossings (current # rest) =
     (let lastValid = last validCrossings;
          currentPeriod = d_sub (c_t current) (c_t lastValid);
          deviation = \<bar>d_sub currentPeriod T_ref\<bar>;
          allowedDeviation = d_mul T_ref periodTolerancePct
      in if deviation \<le> allowedDeviation
         then lock_loop T_ref periodTolerancePct (validCrossings @ [current]) rest
         else validCrossings)"

definition lock_validCrossings :: "Crossing list \<Rightarrow> real \<Rightarrow> Crossing list" where
  "lock_validCrossings rawCrossings periodTolerancePct =
     (if length rawCrossings \<ge> 2 then
        (let T_ref = d_sub (c_t (rawCrossings ! 1)) (c_t (rawCrossings ! 0))
         in lock_loop T_ref periodTolerancePct [rawCrossings ! 0, rawCrossings ! 1]
              (drop 2 rawCrossings))
      else [])"

text \<open>
  The tolerance test of the locking loop on its own, for a candidate \<open>current\<close> against
  the last accepted crossing; and the same test read on the raw list, for crossing \<open>i\<close>
  against crossing \<open>i - 1\<close>, with \<open>T_ref\<close> from the first two crossings.
\<close>

definition within_tolerance :: "real \<Rightarrow> real \<Rightarrow> Crossing \<Rightarrow> Crossing \<Rightarrow> bool" where
  "within_tolerance T_ref periodTolerancePct lastValid current =
     (\<bar>d_sub (d_sub (c_t current) (c_t lastValid)) T_ref\<bar> \<le> d_mul T_ref periodTolerancePct)"

definition period_ok :: "Crossing list \<Rightarrow> real \<Rightarrow> nat \<Rightarrow> bool" where
  "period_ok raw p i =
     within_tolerance (d_sub (c_t (raw ! 1)) (c_t (raw ! 0))) p (raw ! (i - 1)) (raw ! i)"

text \<open>
  Step 6: one maximum per interval between consecutive valid crossings. The scan
  state is \<open>(maxVal, maxIdx)\<close>; \<open>None\<close> stands for the initial \<open>-Infinity\<close>, below
  every sample, and \<open>maxIdx\<close> starts at \<open>-1\<close>.
\<close>

definition scan_max :: "real list \<Rightarrow> nat \<Rightarrow> nat \<Rightarrow> real option \<times> int" where
  "scan_max u_processed startIdx endIdx =
     fold (\<lambda>j (maxVal, maxIdx).
            if (case maxVal of None \<Rightarrow> True | Some m \<Rightarrow> u_processed ! j > m)
            then (Some (u_processed ! j), int j)
            else (maxVal, maxIdx))
          [startIdx..<endIdx + 1] (None, - 1)"

definition detect_peaks :: "real list \<Rightarrow> real list \<Rightarrow> Crossing list \<Rightarrow> real \<Rightarrow> Peak list" where
  "detect_peaks t_raw u_processed validCrossings meanVoltage =
     (if length validCrossings \<ge> 2 then
        fold (\<lambda>i peaks.
               let startIdx = c_idx (validCrossings ! i);
                   endIdx = c_idx (validCrossings ! (i + 1))
               in case scan_max u_processed startIdx endIdx of
                    (Some maxVal, maxIdx) \<Rightarrow>
                      if maxIdx \<noteq> - 1 \<and> maxVal > meanVoltage
                      then peaks @ [\<lparr>p_x = t_raw ! nat maxIdx, p_y = maxVal\<rparr>]
                      else peaks
                  | (None, maxIdx) \<Rightarrow> peaks)
             [0..<length validCrossings - 1] []
      else [])"

text \<open>Step 7: the mean of the successive differences of the valid crossing times.\<close>

definition calc_avgPeriodUs :: "Crossing list \<Rightarrow> real" where
  "calc_avgPeriodUs validCrossings =
     (if length validCrossings \<ge> 2 then
        (let sumDiff = fold (\<lambda>i sumDiff.
                              sumDiff + (c_t (validCrossings ! (i + 1)) - c_t (validCrossings ! i)))
                            [0..<length validCrossings - 1] 0
         in sumDiff / real (length validCrossings - 1))
      else 0)"

text \<open>Step 8: the offsets of the normalisation.\<close>

definition norm_t_offset :: "real list \<Rightarrow> Crossing list \<Rightarrow> real" where
  "norm_t_offset t_raw validCrossings =
     (if length validCrossings > 0 then c_t (validCrossings ! 0)
      else if length t_raw > 0 then t_raw ! 0
      else 0)"

text \<open>
  \<open>processSignal\<close> itself: \<open>None\<close> is the \<open>null\<close> returned for an empty \<open>rawData\<close>.
\<close>

definition processSignal :: "DataPoint list \<Rightarrow> int \<Rightarrow> real \<Rightarrow> bool \<Rightarrow> Processed option" where
  "processSignal rawData smoothingWindow periodTolerancePct invert =
     (if length rawData = 0 then None
      else
        (let t_raw = prep_t_raw rawData;
             u_original = prep_u_original rawData invert;
             u_processed = smoothSignal u_original smoothingWindow;
             meanVoltage = calc_meanVoltage u_processed;
             rawCrossings = find_rawCrossings t_raw u_processed meanVoltage;
             validCrossings = lock_validCrossings rawCrossings periodTolerancePct;
             peaks = detect_peaks t_raw u_processed validCrossings meanVoltage;
             avgPeriodUs = calc_avgPeriodUs validCrossings;
             t_offset = norm_t_offset t_raw validCrossings;
             u_offset = meanVoltage;
             t_norm = map (\<lambda>t. t - t_offset) t_raw;
             u_raw_norm = map (\<lambda>u. u - u_offset) u_original;
             u_smooth_norm = map (\<lambda>u. u - u_offset) u_processed;
             peaks_norm = map (\<lambda>p. \<lparr>p_x = p_x p - t_offset, p_y = p_y p - u_offset\<rparr>) peaks;
             crossings_norm = map (\<lambda>c. \<lparr>c_t = c_t c - t_offset, c_idx = c_idx c\<rparr>) validCrossings
         in Some \<lparr>r_t = t_norm, r_u_raw = u_raw_norm, r_u_smooth = u_smooth_norm,
                  r_peaks = peaks_norm, r_zeroCrossings = crossings_norm,
                  r_meanVoltage = 0, r_avgPeriodUs = avgPeriodUs, r_isInverted = invert\<rparr>))"

section \<open>Envelope fit and metrics\<close>

text \<open>
  \<open>fitExponentialCurve\<close>: the loop over \<open>peaks\<close> updates the five accumulators
  \<open>(sumT, sumLnY, sumTLnY, sumT2, count)\<close>; \<open>None\<close> is \<open>null\<close>. Every operation on
  numbers is the double operation; \<open>count\<close> is a small integer, exact as a double.
\<close>

definition fit_sums :: "Peak list \<Rightarrow> real \<Rightarrow> real \<times> real \<times> real \<times> real \<times> nat" where
  "fit_sums peaks C =
     fold (\<lambda>p (sumT, sumLnY, sumTLnY, sumT2, count).
            if p_y p > C then
              (let lnY = Math_log (d_sub (p_y p) C)
               in (d_add sumT (p_x p), d_add sumLnY lnY, d_add sumTLnY (d_mul (p_x p) lnY),
                   d_add sumT2 (d_mul (p_x p) (p_x p)), count + 1))
            else (sumT, sumLnY, sumTLnY, sumT2, count))
          peaks (0, 0, 0, 0, 0)"

definition fitExponentialCurve :: "Peak list \<Rightarrow> real \<Rightarrow> FitParams option" where
  "fitExponentialCurve peaks meanVoltage =
     (if length peaks < 2 then None
      else
        (let C = meanVoltage in
         case fit_sums peaks C of (sumT, sumLnY, sumTLnY, sumT2, count) \<Rightarrow>
           if count < 2 then None
           else
             (let denominator = d_sub (d_mul (real count) sumT2) (d_mul sumT sumT)
              in if denominator = 0 then None
                 else
                   (let beta = d_div (d_sub (d_mul (real count) sumTLnY) (d_mul sumT sumLnY))
                                 denominator;
                        lnA = d_div (d_sub sumLnY (d_mul beta sumT)) (real count);
                        A = Math_exp lnA
                    in Some \<lparr>fit_A = A, fit_beta = beta, fit_C = C\<rparr>))))"

text \<open>
  The two \<open>useMemo\<close> hooks of \<open>App\<close>. \<open>data\<close> is \<open>None\<close> while no file is loaded;
  \<open>periodTolerance\<close> is the percentage of the settings state, and its division by
  100 is the double division.
\<close>

definition processedData :: "DataPoint list option \<Rightarrow> int \<Rightarrow> real \<Rightarrow> bool \<Rightarrow> Processed option" where
  "processedData data smoothingWindow periodTolerance isInverted =
     (case data of
        None \<Rightarrow> None
      | Some d \<Rightarrow> processSignal d smoothingWindow (d_div periodTolerance 100) isInverted)"

definition derive_metrics :: "FitParams option \<Rightarrow> real \<Rightarrow> Peak list \<Rightarrow> SignalMetrics option" where
  "derive_metrics fit' avgPeriodUs peaks =
     (case fit' of
        None \<Rightarrow> None
      | Some f \<Rightarrow>
          if avgPeriodUs > 0 then
            (let f_hz = 1 / (avgPeriodUs * 0.000001);
                 lambda' = \<bar>fit_beta f\<bar> * avgPeriodUs;
                 betaSeconds = lambda' / (avgPeriodUs * 0.000001)
             in Some \<lparr>frequencyKhz = f_hz / 1000, m_beta = betaSeconds, lambda = lambda',
                      periodUs = avgPeriodUs, validCycles = length peaks\<rparr>)
          else None)"

definition fitResults :: "Processed option \<Rightarrow> FitResults option" where
  "fitResults pd =
     (case pd of
        None \<Rightarrow> None
      | Some r \<Rightarrow>
          if length (r_peaks r) < 2 then None
          else
            (let peaks = r_peaks r;
                 meanVoltage = r_meanVoltage r;
                 avgPeriodUs = r_avgPeriodUs r;
                 fit' = fitExponentialCurve peaks meanVoltage;
                 metrics' = derive_metrics fit' avgPeriodUs peaks
             in Some \<lparr>fit = fit', metrics = metrics'\<rparr>))"

section \<open>A sample trace\<close>

text \<open>
  Six samples, one second apart, alternating between 0 V and 2 V: the input of the
  worked examples below.
\<close>

abbreviation (input) square_trace :: "DataPoint list" where
  "square_trace \<equiv>
     [\<lparr>time = 0, voltage = 0\<rparr>, \<lparr>time = 1, voltage = 2\<rparr>, \<lparr>time = 2, voltage = 0\<rparr>,
      \<lparr>time = 3, voltage = 2\<rparr>, \<lparr>time = 4, voltage = 0\<rparr>, \<lparr>time = 5, voltage = 2\<rparr>]"

section \<open>Rounding to a double\<close>

lemma rne_of_int [simp]: "rne (of_int n) = n"
  by (simp add: rne_def)

lemma ulp_pos: "0 < ulp x"
  by (simp add: ulp_def)

lemma two_powr_int: "(2::real) powr (real_of_int n) = 2 powi n"
  by (simp add: powr_real_of_int')

lemma floor_log2_eq:
  assumes "2 powi e \<le> \<bar>x\<bar>" "\<bar>x\<bar> < 2 powi (e + 1)"
  shows "\<lfloor>log 2 \<bar>x\<bar>\<rfloor> = e"
proof -
  have pos: "0 < \<bar>x\<bar>" using assms(1) zero_less_power_int [of "2::real" e] by linarith
  have "2 powr (real_of_int e) \<le> \<bar>x\<bar> \<and> \<bar>x\<bar> < 2 powr (real_of_int (e + 1))"
    using assms by (simp only: two_powr_int simp_thms)
  then have "2 powr (real_of_int e) \<le> \<bar>x\<bar> \<and> \<bar>x\<bar> < 2 powr (real_of_int e + 1)"
    by simp
  then show ?thesis
    using pos floor_log_eq_powr_iff [of "\<bar>x\<bar>" 2 e] by simp
qed

lemma ulp_eq:
  assumes "2 powi e \<le> \<bar>x\<bar>" "\<bar>x\<bar> < 2 powi (e + 1)" "- 1022 \<le> e"
  shows "ulp x = 2 powi (e - 52)"
  using floor_log2_eq [OF assms(1,2)] assms(3) by (simp add: ulp_def max_def)

lemma rnd_eval:
  assumes "2 powi e \<le> \<bar>x\<bar>" "\<bar>x\<bar> < 2 powi (e + 1)" "- 1022 \<le> e"
  shows "rnd x = of_int (rne (x / 2 powi (e - 52))) * 2 powi (e - 52)"
proof -
  have p: "0 < (2::real) powi e" by simp
  have "0 < \<bar>x\<bar>" using p assms(1) by (rule less_le_trans)
  then have "x \<noteq> 0" by simp
  then show ?thesis by (simp add: rnd_def ulp_eq [OF assms])
qed

lemma rnd_nonneg: "0 \<le> x \<Longrightarrow> 0 \<le> rnd x"
proof -
  assume x: "0 \<le> x"
  have "0 \<le> x / ulp x" using x ulp_pos [of x] by simp
  then have "0 \<le> \<lfloor>x / ulp x\<rfloor>" by simp
  then have "0 \<le> rne (x / ulp x)" by (simp add: rne_def Let_def)
  then show ?thesis using ulp_pos [of x] by (simp add: rnd_def)
qed

lemma rnd_exact:
  assumes x: "x = of_int m * 2 powi k" and m: "\<bar>m\<bar> < 2 ^ 53" and k: "- 1074 \<le> k"
  shows "rnd x = x"
proof (cases "x = 0")
  case True then show ?thesis by (simp add: rnd_def)
next
  case False
  define e where "e = max \<lfloor>log 2 \<bar>x\<bar>\<rfloor> (- 1022)"
  have u: "ulp x = 2 powi (e - 52)" by (simp add: ulp_def e_def)
  have ax: "\<bar>x\<bar> = of_int \<bar>m\<bar> * 2 powi k" unfolding x by (simp add: abs_mult)
  have "real_of_int \<bar>m\<bar> < 2 ^ 53" using m by (metis of_int_less_numeral_power_cancel_iff)
  then have "\<bar>x\<bar> < 2 ^ 53 * 2 powi k" unfolding ax by (simp)
  also have "\<dots> = 2 powi (53 + k)" by (simp add: power_int_add)
  finally have lt: "\<bar>x\<bar> < 2 powr (real_of_int (53 + k))" by (simp only: two_powr_int)
  have "log 2 \<bar>x\<bar> < real_of_int (53 + k)"
    using lt False by (simp add: log_less_iff)
  then have "\<lfloor>log 2 \<bar>x\<bar>\<rfloor> < 53 + k" by (simp add: floor_less_iff)
  then have ek: "e - 52 \<le> k" using k by (simp add: e_def)
  define j where "j = nat (k - (e - 52))"
  have kj: "k = (e - 52) + int j" using ek by (simp add: j_def)
  have p2: "(2::real) powi k = 2 powi (e - 52) * 2 ^ j"
    by (subst kj) (simp add: power_int_add)
  have "x / ulp x = (of_int m * 2 powi k) / 2 powi (e - 52)"
    by (simp only: u x [symmetric])
  also have "\<dots> = of_int m * 2 ^ j"
    unfolding p2 by simp
  also have "\<dots> = of_int (m * 2 ^ j)" by simp
  finally have "rne (x / ulp x) = m * 2 ^ j" by (simp only: rne_of_int)
  then have "rnd x = of_int (m * 2 ^ j) * 2 powi (e - 52)"
    using False by (simp add: rnd_def u)
  also have "\<dots> = of_int m * 2 powi k" unfolding p2 by simp
  also have "\<dots> = x" by (simp only: x)
  finally show ?thesis .
qed

lemma rnd_of_int: "\<bar>m\<bar> < 2 ^ 53 \<Longrightarrow> rnd (of_int m) = of_int m"
  using rnd_exact [of "of_int m" m 0] by simp

lemma rnd_numeral [simp]:
  "(numeral n :: int) < 9007199254740992 \<Longrightarrow> rnd (numeral n) = numeral n"
  using rnd_of_int [of "numeral n"] by simp

lemma rnd_neg_numeral [simp]:
  "(numeral n :: int) < 9007199254740992 \<Longrightarrow> rnd (- numeral n) = - numeral n"
  using rnd_of_int [of "- numeral n"] by simp

lemma rnd_0 [simp]: "rnd 0 = 0" by (simp add: rnd_def)
lemma rnd_1 [simp]: "rnd 1 = 1" using rnd_of_int [of 1] by simp

lemma d_sub_self [simp]: "d_sub a a = 0"
  by (simp add: d_sub_def)

lemma d_mul_nonneg: "0 \<le> a \<Longrightarrow> 0 \<le> b \<Longrightarrow> 0 \<le> d_mul a b"
  by (simp add: d_mul_def rnd_nonneg)

lemma d_div_nonneg: "0 \<le> a \<Longrightarrow> 0 \<le> b \<Longrightarrow> 0 \<le> d_div a b"
  by (simp add: d_div_def rnd_nonneg)

section \<open>Loops as list functions\<close>

lemma fold_snoc_map: "fold (\<lambda>i acc. acc @ [f i]) xs acc0 = acc0 @ map f xs"
  by (induction xs arbitrary: acc0) auto

lemma fold_snoc_filter_map:
  "fold (\<lambda>i acc. if P i then acc @ [f i] else acc) xs acc0 = acc0 @ map f (filter P xs)"
  by (induction xs arbitrary: acc0) auto

lemma fold_add_sum_list: "fold (\<lambda>j (s::real). s + g j) xs s0 = s0 + sum_list (map g xs)"
  by (induction xs arbitrary: s0) (auto simp: algebra_simps)

lemma length_smoothSignal: "length (smoothSignal v W) = length v"
  by (simp add: smoothSignal_def Let_def fold_snoc_map)

lemma smoothSignal_map:
  "1 < W \<Longrightarrow> smoothSignal v W =
     map (\<lambda>i. sum_list (map (\<lambda>j. v ! j) [nat (max 0 (int i - W div 2))..<nat (min (int (length v)) (int i + W div 2 + 1))])
        / real_of_int (min (int (length v)) (int i + W div 2 + 1) - max 0 (int i - W div 2))) [0..<length v]"
  by (simp add: smoothSignal_def Let_def fold_snoc_map fold_add_sum_list)

lemma find_rawCrossings_eq:
  "find_rawCrossings t_raw u m =
     map (\<lambda>i. \<lparr>c_t = t_raw ! i + (m - u ! i) / (u ! (i + 1) - u ! i) * (t_raw ! (i + 1) - t_raw ! i),
               c_idx = i\<rparr>)
       (filter (\<lambda>i. u ! i \<le> m \<and> u ! (i + 1) > m) [0..<length u - 1])"
  unfolding find_rawCrossings_def Let_def fold_snoc_filter_map by simp

section \<open>The sample trace, stage by stage\<close>

lemma upt5: "[0..<5] = [0, 1, 2, 3, 4]" by code_simp
lemma upt2: "[0..<2] = [0, 1]" by code_simp
lemma upt03: "[0..<3] = [0, 1, 2]" by code_simp
lemma upt25: "[2..<5] = [2, 3, 4]" by code_simp

lemma ex_t: "prep_t_raw square_trace = [0, 1000000, 2000000, 3000000, 4000000, 5000000]"
  by (simp add: prep_t_raw_def)

lemma ex_u: "smoothSignal (prep_u_original square_trace False) 1 = [0, 2, 0, 2, 0, 2]"
  by (simp add: prep_u_original_def smoothSignal_def)

lemma ex_mean: "calc_meanVoltage [0, 2, 0, 2, 0, 2] = 1"
  by (simp add: calc_meanVoltage_def)

lemma ex_raw: "find_rawCrossings [0, 1000000, 2000000, 3000000, 4000000, 5000000] [0, 2, 0, 2, 0, 2] 1
   = [\<lparr>c_t = 500000, c_idx = 0\<rparr>, \<lparr>c_t = 2500000, c_idx = 2\<rparr>, \<lparr>c_t = 4500000, c_idx = 4\<rparr>]"
  by (simp add: find_rawCrossings_def upt5 Let_def)

lemma ex_valid_any:
  assumes "0 \<le> p"
  shows "lock_validCrossings [\<lparr>c_t = 500000, c_idx = 0\<rparr>, \<lparr>c_t = 2500000, c_idx = 2\<rparr>, \<lparr>c_t = 4500000, c_idx = 4\<rparr>] p
   = [\<lparr>c_t = 500000, c_idx = 0\<rparr>, \<lparr>c_t = 2500000, c_idx = 2\<rparr>, \<lparr>c_t = 4500000, c_idx = 4\<rparr>]"
proof -
  have "0 \<le> d_mul 2000000 p" using assms by (simp add: d_mul_nonneg)
  then show ?thesis by (simp add: lock_validCrossings_def Let_def d_sub_def)
qed

lemma ex_valid: "lock_validCrossings [\<lparr>c_t = 500000, c_idx = 0\<rparr>, \<lparr>c_t = 2500000, c_idx = 2\<rparr>, \<lparr>c_t = 4500000, c_idx = 4\<rparr>] (10 / 100)
   = [\<lparr>c_t = 500000, c_idx = 0\<rparr>, \<lparr>c_t = 2500000, c_idx = 2\<rparr>, \<lparr>c_t = 4500000, c_idx = 4\<rparr>]"
  by (rule ex_valid_any) simp

lemma ex_peaks: "detect_peaks [0, 1000000, 2000000, 3000000, 4000000, 5000000] [0, 2, 0, 2, 0, 2]
    [\<lparr>c_t = 500000, c_idx = 0\<rparr>, \<lparr>c_t = 2500000, c_idx = 2\<rparr>, \<lparr>c_t = 4500000, c_idx = 4\<rparr>] 1
   = [\<lparr>p_x = 1000000, p_y = 2\<rparr>, \<lparr>p_x = 3000000, p_y = 2\<rparr>]"
  by (simp add: detect_peaks_def scan_max_def upt2 upt03 upt25 Let_def)

lemma ex_avg: "calc_avgPeriodUs [\<lparr>c_t = 500000, c_idx = 0\<rparr>, \<lparr>c_t = 2500000, c_idx = 2\<rparr>, \<lparr>c_t = 4500000, c_idx = 4\<rparr>] = 2000000"
  by (simp add: calc_avgPeriodUs_def upt2 Let_def)

lemma ex_processed_any:
  assumes "0 \<le> p"
  shows "processSignal square_trace 1 p False =
     Some \<lparr>r_t = [-500000, 500000, 1500000, 2500000, 3500000, 4500000],
           r_u_raw = [-1, 1, -1, 1, -1, 1], r_u_smooth = [-1, 1, -1, 1, -1, 1],
           r_peaks = [\<lparr>p_x = 500000, p_y = 1\<rparr>, \<lparr>p_x = 2500000, p_y = 1\<rparr>],
           r_zeroCrossings = [\<lparr>c_t = 0, c_idx = 0\<rparr>, \<lparr>c_t = 2000000, c_idx = 2\<rparr>, \<lparr>c_t = 4000000, c_idx = 4\<rparr>],
           r_meanVoltage = 0, r_avgPeriodUs = 2000000, r_isInverted = False\<rparr>"
  unfolding processSignal_def Let_def ex_t ex_u ex_mean ex_raw ex_valid_any [OF assms] ex_peaks ex_avg
  by (simp add: norm_t_offset_def prep_u_original_def)

lemma ex_processed:
  "processSignal square_trace 1 (10 / 100) False =
     Some \<lparr>r_t = [-500000, 500000, 1500000, 2500000, 3500000, 4500000],
           r_u_raw = [-1, 1, -1, 1, -1, 1], r_u_smooth = [-1, 1, -1, 1, -1, 1],
           r_peaks = [\<lparr>p_x = 500000, p_y = 1\<rparr>, \<lparr>p_x = 2500000, p_y = 1\<rparr>],
           r_zeroCrossings = [\<lparr>c_t = 0, c_idx = 0\<rparr>, \<lparr>c_t = 2000000, c_idx = 2\<rparr>, \<lparr>c_t = 4000000, c_idx = 4\<rparr>],
           r_meanVoltage = 0, r_avgPeriodUs = 2000000, r_isInverted = False\<rparr>"
  by (rule ex_processed_any) simp

lemma ex_fit: "fitExponentialCurve [\<lparr>p_x = 500000, p_y = 1\<rparr>, \<lparr>p_x = 2500000, p_y = 1\<rparr>] 0
   = Some \<lparr>fit_A = 1, fit_beta = 0, fit_C = 0\<rparr>"
  by (simp add: fitExponentialCurve_def fit_sums_def Let_def d_add_def d_sub_def d_mul_def
      d_div_def Math_log_def Math_exp_def)

lemma ex_fitResults_record:
  "fitResults (Some \<lparr>r_t = [-500000, 500000, 1500000, 2500000, 3500000, 4500000],
           r_u_raw = [-1, 1, -1, 1, -1, 1], r_u_smooth = [-1, 1, -1, 1, -1, 1],
           r_peaks = [\<lparr>p_x = 500000, p_y = 1\<rparr>, \<lparr>p_x = 2500000, p_y = 1\<rparr>],
           r_zeroCrossings = [\<lparr>c_t = 0, c_idx = 0\<rparr>, \<lparr>c_t = 2000000, c_idx = 2\<rparr>, \<lparr>c_t = 4000000, c_idx = 4\<rparr>],
           r_meanVoltage = 0, r_avgPeriodUs = 2000000, r_isInverted = False\<rparr>) =
     Some \<lparr>fit = Some \<lparr>fit_A = 1, fit_beta = 0, fit_C = 0\<rparr>,
           metrics = Some \<lparr>frequencyKhz = 1 / 2000, m_beta = 0, lambda = 0, periodUs = 2000000, validCycles = 2\<rparr>\<rparr>"
  by (simp add: fitResults_def ex_fit derive_metrics_def Let_def)

lemma ex_fitResults:
  "fitResults (processSignal square_trace 1 (10 / 100) False) =
     Some \<lparr>fit = Some \<lparr>fit_A = 1, fit_beta = 0, fit_C = 0\<rparr>,
           metrics = Some \<lparr>frequencyKhz = 1 / 2000, m_beta = 0, lambda = 0, periodUs = 2000000, validCycles = 2\<rparr>\<rparr>"
  unfolding ex_processed by (rule ex_fitResults_record)

lemma ex_fitResults_hook:
  "fitResults (processedData (Some square_trace) 1 10 False) =
     Some \<lparr>fit = Some \<lparr>fit_A = 1, fit_beta = 0, fit_C = 0\<rparr>,
           metrics = Some \<lparr>frequencyKhz = 1 / 2000, m_beta = 0, lambda = 0, periodUs = 2000000, validCycles = 2\<rparr>\<rparr>"
proof -
  have p: "0 \<le> d_div 10 100" by (simp add: d_div_nonneg)
  have "processedData (Some square_trace) 1 10 False = processSignal square_trace 1 (d_div 10 100) False"
    by (simp add: processedData_def)
  then show ?thesis
    unfolding ex_processed_any [OF p] by (simp only: ex_fitResults_record)
qed

section \<open>Smoothing: shape and window\<close>

text \<open>
  C9. For a window \<open>W \<ge> 1\<close> the smoothed series has the length of the input; its
  element \<open>i\<close> is the mean of the input over the index window from \<open>i - W div 2\<close> to
  \<open>i + W div 2\<close> clamped to the series, a window that contains \<open>i\<close>, lies inside the
  series, and so has a positive size as divisor; and \<open>W = 1\<close> returns the input itself.
\<close>

theorem smoothSignal_shape:
  assumes "1 \<le> W"
  shows "length (smoothSignal v W) = length v
    \<and> (\<forall>i < length v.
          let lo = nat (max 0 (int i - W div 2));
              hi = nat (min (int (length v) - 1) (int i + W div 2))
          in lo \<le> i \<and> i \<le> hi \<and> hi < length v
             \<and> smoothSignal v W ! i = (\<Sum>j = lo..hi. v ! j) / real (hi - lo + 1))
    \<and> (W = 1 \<longrightarrow> smoothSignal v W = v)"
proof (cases "W = 1")
  case True
  then show ?thesis by (auto simp: smoothSignal_def Let_def)
next
  case False
  with assms have W: "1 < W" by simp
  have len: "length (smoothSignal v W) = length v"
    using W by (simp add: smoothSignal_map)
  have el: "lo \<le> i \<and> i \<le> hi \<and> hi < length v
             \<and> smoothSignal v W ! i = (\<Sum>j = lo..hi. v ! j) / real (hi - lo + 1)"
    if i: "i < length v" and lo: "lo = nat (max 0 (int i - W div 2))"
      and hi: "hi = nat (min (int (length v) - 1) (int i + W div 2))" for i lo hi
  proof -
    define k where "k = W div 2"
    have h: "0 \<le> k" using W by (simp add: k_def)
    have b: "lo \<le> i" "i \<le> hi" "hi < length v"
      using i h lo hi unfolding k_def [symmetric] by auto
    have e: "nat (min (int (length v)) (int i + W div 2 + 1)) = Suc hi"
      using i h hi unfolding k_def [symmetric] by auto
    have d: "min (int (length v)) (int i + W div 2 + 1) - max 0 (int i - W div 2) = int (hi - lo + 1)"
      using i h lo hi unfolding k_def [symmetric] by (auto simp: min_def max_def)
    have s: "sum_list (map (\<lambda>j. v ! j) [lo..<Suc hi]) = (\<Sum>j = lo..hi. v ! j)"
      by (simp only: interv_sum_list_conv_sum_set_nat set_upt atLeastLessThanSuc_atLeastAtMost)
    have "smoothSignal v W ! i =
        sum_list (map (\<lambda>j. v ! j) [nat (max 0 (int i - W div 2))..<nat (min (int (length v)) (int i + W div 2 + 1))])
        / real_of_int (min (int (length v)) (int i + W div 2 + 1) - max 0 (int i - W div 2))"
      using i by (simp only: smoothSignal_map [OF W] nth_map length_upt nth_upt minus_nat.diff_0 add_0)
    also have "\<dots> = sum_list (map (\<lambda>j. v ! j) [lo..<Suc hi]) / real_of_int (int (hi - lo + 1))"
      by (simp only: e d lo [symmetric])
    also have "\<dots> = (\<Sum>j = lo..hi. v ! j) / real (hi - lo + 1)"
      by (simp only: s of_int_of_nat_eq)
    finally show ?thesis using b by simp
  qed
  show ?thesis using len el False by (simp add: Let_def)
qed

theorem smoothSignal_shape_witness:
  "(1::int) \<le> 3
   \<and> length (smoothSignal [1, 2, 3, 6] 3) = 4
   \<and> smoothSignal [1, 2, 3, 6] 3 ! 0 = (1 + 2) / 2
   \<and> smoothSignal [1, 2, 3, 6] 3 ! 3 = (3 + 6) / 2
   \<and> smoothSignal [1, 2, 3, 6] 1 = [1, 2, 3, 6]"
proof -
  have w: "(1::int) \<le> 3" by simp
  note sh = smoothSignal_shape [OF w, of "[1, 2, 3, 6]"]
  have len: "length (smoothSignal [1, 2, 3, 6] 3) = 4" using sh by simp
  have "(0::nat) < length [1, 2, 3, 6::real]" by simp
  with sh have e0: "smoothSignal [1, 2, 3, 6] 3 ! 0 = (\<Sum>j = 0..1. [1, 2, 3, 6::real] ! j) / real (1 - 0 + 1)"
    by (simp add: Let_def)
  have "(3::nat) < length [1, 2, 3, 6::real]" by simp
  with sh have e3: "smoothSignal [1, 2, 3, 6] 3 ! 3 = (\<Sum>j = 2..3. [1, 2, 3, 6::real] ! j) / real (3 - 2 + 1)"
    by (simp add: Let_def)
  have s01: "{0..1::nat} = {0, 1}" and s23: "{2..3::nat} = {2, 3}" by auto
  have id: "smoothSignal [1, 2, 3, 6] 1 = [1, 2, 3, 6]"
    using smoothSignal_shape [of 1 "[1, 2, 3, 6]"] by simp
  show ?thesis using w len e0 e3 id by (simp add: s01 s23)
qed

section \<open>Period locking\<close>

lemma lock_loop_Cons:
  "lock_loop T_ref p validCrossings (current # rest) =
     (if within_tolerance T_ref p (last validCrossings) current
      then lock_loop T_ref p (validCrossings @ [current]) rest
      else validCrossings)"
  by (simp add: within_tolerance_def Let_def)

lemma lock_loop_prefix:
  assumes "validCrossings \<noteq> []"
  shows "\<exists>k \<le> length rest.
           lock_loop T_ref p validCrossings rest = validCrossings @ take k rest
         \<and> (\<forall>i < k. within_tolerance T_ref p
                      ((validCrossings @ rest) ! (length validCrossings + i - 1))
                      ((validCrossings @ rest) ! (length validCrossings + i)))
         \<and> (k < length rest \<longrightarrow>
              \<not> within_tolerance T_ref p
                  ((validCrossings @ rest) ! (length validCrossings + k - 1))
                  ((validCrossings @ rest) ! (length validCrossings + k)))"
  using assms
proof (induction rest arbitrary: validCrossings)
  case Nil
  then show ?case by simp
next
  case (Cons current rest)
  let ?n = "length validCrossings"
  let ?all = "validCrossings @ current # rest"
  have lastv: "?all ! (?n - 1) = last validCrossings"
    using Cons.prems by (simp add: nth_append last_conv_nth)
  have cur: "?all ! ?n = current" by simp
  have at0: "within_tolerance T_ref p (?all ! (?n + 0 - 1)) (?all ! (?n + 0))
               = within_tolerance T_ref p (last validCrossings) current"
    by (simp only: add_0_right lastv cur)
  show ?case
  proof (cases "within_tolerance T_ref p (last validCrossings) current")
    case False
    have "lock_loop T_ref p validCrossings (current # rest) = validCrossings"
      using False by (simp only: lock_loop_Cons if_False)
    moreover have "\<not> within_tolerance T_ref p (?all ! (?n + 0 - 1)) (?all ! (?n + 0))"
      using False at0 by simp
    ultimately show ?thesis
      by (intro exI [of _ 0]) simp
  next
    case True
    have ne: "validCrossings @ [current] \<noteq> []" by simp
    have app: "(validCrossings @ [current]) @ rest = ?all" by simp
    have len: "length (validCrossings @ [current]) = Suc ?n" by simp
    from Cons.IH [OF ne] obtain k where k: "k \<le> length rest"
      and res: "lock_loop T_ref p (validCrossings @ [current]) rest
                  = (validCrossings @ [current]) @ take k rest"
      and ok: "\<forall>i < k. within_tolerance T_ref p (?all ! (Suc ?n + i - 1)) (?all ! (Suc ?n + i))"
      and stop: "k < length rest \<longrightarrow>
                  \<not> within_tolerance T_ref p (?all ! (Suc ?n + k - 1)) (?all ! (Suc ?n + k))"
      unfolding app len by blast
    have r: "lock_loop T_ref p validCrossings (current # rest)
               = validCrossings @ take (Suc k) (current # rest)"
      using True res by (simp add: lock_loop_Cons del: lock_loop.simps)
    have ok0: "within_tolerance T_ref p (?all ! (?n + 0 - 1)) (?all ! (?n + 0))"
      using True at0 by simp
    have ok': "within_tolerance T_ref p (?all ! (?n + i - 1)) (?all ! (?n + i))"
      if "i < Suc k" for i
    proof (cases i)
      case 0
      then show ?thesis using ok0 by simp
    next
      case (Suc j)
      then have "j < k" using that by simp
      with ok have "within_tolerance T_ref p (?all ! (Suc ?n + j - 1)) (?all ! (Suc ?n + j))"
        by blast
      then show ?thesis unfolding Suc by simp
    qed
    have stop': "Suc k < length (current # rest) \<longrightarrow>
                   \<not> within_tolerance T_ref p (?all ! (?n + Suc k - 1)) (?all ! (?n + Suc k))"
      using stop by simp
    show ?thesis
      using k r ok' stop' by (intro exI [of _ "Suc k"]) simp
  qed
qed

lemma raw_split:
  assumes "2 \<le> length raw"
  shows "[raw ! 0, raw ! 1] @ drop 2 raw = raw"
proof -
  obtain a b rest where "raw = a # b # rest"
    using assms by (cases raw; cases "tl raw") auto
  then show ?thesis by simp
qed

lemma lock_validCrossings_take:
  assumes "2 \<le> length raw"
  shows "\<exists>k. 2 \<le> k \<and> k \<le> length raw \<and> lock_validCrossings raw p = take k raw
           \<and> (\<forall>i. 2 \<le> i \<and> i < k \<longrightarrow> period_ok raw p i)
           \<and> (k < length raw \<longrightarrow> \<not> period_ok raw p k)"
proof -
  let ?T = "d_sub (c_t (raw ! 1)) (c_t (raw ! 0))"
  let ?v = "[raw ! 0, raw ! 1]"
  have ne: "?v \<noteq> []" by simp
  note sp = raw_split [OF assms]
  from lock_loop_prefix [OF ne, of "drop 2 raw" ?T p]
  obtain k where k: "k \<le> length (drop 2 raw)"
    and res: "lock_loop ?T p ?v (drop 2 raw) = ?v @ take k (drop 2 raw)"
    and ok: "\<forall>i < k. within_tolerance ?T p (raw ! (length ?v + i - 1)) (raw ! (length ?v + i))"
    and stop: "k < length (drop 2 raw) \<longrightarrow>
                \<not> within_tolerance ?T p (raw ! (length ?v + k - 1)) (raw ! (length ?v + k))"
    unfolding sp by blast
  have tk: "?v @ take k (drop 2 raw) = take (2 + k) raw"
  proof -
    have "take (2 + k) (?v @ drop 2 raw) = ?v @ take k (drop 2 raw)" by simp
    then show ?thesis unfolding sp by simp
  qed
  have r: "lock_validCrossings raw p = take (2 + k) raw"
    using assms res tk by (simp add: lock_validCrossings_def Let_def)
  have ok': "period_ok raw p i" if "2 \<le> i" "i < 2 + k" for i
  proof -
    have "i = 2 + (i - 2)" using that(1) by simp
    then obtain j where j: "i = 2 + j" ..
    then have "j < k" using that(2) by simp
    with ok show ?thesis
      unfolding j period_ok_def by simp
  qed
  have stop': "\<not> period_ok raw p (2 + k)" if "2 + k < length raw"
  proof -
    have "k < length (drop 2 raw)" using that by simp
    with stop show ?thesis
      unfolding period_ok_def by simp
  qed
  show ?thesis
    using assms k r ok' stop' by (intro exI [of _ "2 + k"]) auto
qed

lemma lock_validCrossings_is_take:
  "\<exists>k. lock_validCrossings raw p = take k raw"
proof (cases "2 \<le> length raw")
  case True
  from lock_validCrossings_take [OF True, of p] show ?thesis by blast
next
  case False
  then have "lock_validCrossings raw p = take 0 raw"
    by (simp add: lock_validCrossings_def)
  then show ?thesis ..
qed

lemma d_div_5_100: "d_div 5 100 = 3602879701896397 / 72057594037927936"
  using rnd_eval [of "- 5" "5 / 100"] by (simp add: d_div_def rne_def)

lemma d_mul_10_p5: "d_mul 10 (3602879701896397 / 72057594037927936) = 1 / 2"
  using rnd_eval [of "- 1" "10 * (3602879701896397 / 72057594037927936)"]
  by (simp add: d_mul_def rne_def)

lemma d_div_6_100: "d_div 6 100 = 1080863910568919 / 18014398509481984"
  using rnd_eval [of "- 5" "6 / 100"] by (simp add: d_div_def rne_def)

lemma d_mul_1000_p6: "d_mul 1000 (1080863910568919 / 18014398509481984) = 60"
  using rnd_eval [of 5 "1000 * (1080863910568919 / 18014398509481984)"]
  by (simp add: d_mul_def rne_def)

lemma d_div_29_100: "d_div 29 100 = 5224175567749775 / 18014398509481984"
  using rnd_eval [of "- 2" "29 / 100"] by (simp add: d_div_def rne_def)

lemma d_mul_1e8_p29:
  "d_mul 100000000 (5224175567749775 / 18014398509481984) = 7784628223999999 / 268435456"
  using rnd_eval [of 24 "100000000 * (5224175567749775 / 18014398509481984)"]
  by (simp add: d_mul_def rne_def)

text \<open>
  C1. With fewer than two raw crossings the valid list is empty. Otherwise it is the
  first \<open>k\<close> raw crossings for some \<open>k \<ge> 2\<close>, with \<open>T_ref = t\<^sub>1 - t\<^sub>0\<close>: every crossing \<open>i\<close>
  from the third one up to \<open>k\<close> has a period, measured against its predecessor (the
  last accepted crossing), whose deviation from \<open>T_ref\<close> is at most \<open>T_ref * p\<close>, and
  when raw crossings are left over, the deviation of crossing \<open>k\<close> is more than
  \<open>T_ref * p\<close>: the run stops at the first violation. The differences and the product
  are those the program computes, in double arithmetic. For the crossing times
  0, 10, 20, 31, 42 and a tolerance of 5 % (the double \<open>5 / 100\<close>) the valid crossings
  are exactly the first three.
\<close>

theorem period_locking:
  "(length raw < 2 \<longrightarrow> lock_validCrossings raw p = [])
   \<and> (2 \<le> length raw \<longrightarrow>
        (\<exists>k. 2 \<le> k \<and> k \<le> length raw \<and> lock_validCrossings raw p = take k raw
           \<and> (\<forall>i. 2 \<le> i \<and> i < k \<longrightarrow>
                 \<bar>d_sub (d_sub (c_t (raw ! i)) (c_t (raw ! (i - 1))))
                         (d_sub (c_t (raw ! 1)) (c_t (raw ! 0)))\<bar>
                   \<le> d_mul (d_sub (c_t (raw ! 1)) (c_t (raw ! 0))) p)
           \<and> (k < length raw \<longrightarrow>
                 \<bar>d_sub (d_sub (c_t (raw ! k)) (c_t (raw ! (k - 1))))
                         (d_sub (c_t (raw ! 1)) (c_t (raw ! 0)))\<bar>
                   > d_mul (d_sub (c_t (raw ! 1)) (c_t (raw ! 0))) p)))
   \<and> lock_validCrossings
         [\<lparr>c_t = 0, c_idx = i0\<rparr>, \<lparr>c_t = 10, c_idx = i1\<rparr>, \<lparr>c_t = 20, c_idx = i2\<rparr>,
          \<lparr>c_t = 31, c_idx = i3\<rparr>, \<lparr>c_t = 42, c_idx = i4\<rparr>] (d_div 5 100)
       = [\<lparr>c_t = 0, c_idx = i0\<rparr>, \<lparr>c_t = 10, c_idx = i1\<rparr>, \<lparr>c_t = 20, c_idx = i2\<rparr>]"
proof (intro conjI impI)
  assume "length raw < 2"
  then show "lock_validCrossings raw p = []" by (simp add: lock_validCrossings_def)
next
  assume "2 \<le> length raw"
  from lock_validCrossings_take [OF this, of p]
  show "\<exists>k. 2 \<le> k \<and> k \<le> length raw \<and> lock_validCrossings raw p = take k raw
           \<and> (\<forall>i. 2 \<le> i \<and> i < k \<longrightarrow>
                 \<bar>d_sub (d_sub (c_t (raw ! i)) (c_t (raw ! (i - 1))))
                         (d_sub (c_t (raw ! 1)) (c_t (raw ! 0)))\<bar>
                   \<le> d_mul (d_sub (c_t (raw ! 1)) (c_t (raw ! 0))) p)
           \<and> (k < length raw \<longrightarrow>
                 \<bar>d_sub (d_sub (c_t (raw ! k)) (c_t (raw ! (k - 1))))
                         (d_sub (c_t (raw ! 1)) (c_t (raw ! 0)))\<bar>
                   > d_mul (d_sub (c_t (raw ! 1)) (c_t (raw ! 0))) p)"
    by (simp add: period_ok_def within_tolerance_def not_le [symmetric])
next
  have t: "d_sub 10 0 = 10" "d_sub 20 10 = 10" "d_sub 31 20 = 11" "d_sub 10 10 = 0"
    "d_sub 11 10 = 1"
    by (simp_all add: d_sub_def)
  show "lock_validCrossings
         [\<lparr>c_t = 0, c_idx = i0\<rparr>, \<lparr>c_t = 10, c_idx = i1\<rparr>, \<lparr>c_t = 20, c_idx = i2\<rparr>,
          \<lparr>c_t = 31, c_idx = i3\<rparr>, \<lparr>c_t = 42, c_idx = i4\<rparr>] (d_div 5 100)
       = [\<lparr>c_t = 0, c_idx = i0\<rparr>, \<lparr>c_t = 10, c_idx = i1\<rparr>, \<lparr>c_t = 20, c_idx = i2\<rparr>]"
    unfolding d_div_5_100
    by (simp add: lock_validCrossings_def Let_def t d_mul_10_p5)
qed

text \<open>
  The theorem at three lists. The first is the example of the claim. In the second
  the deviation 60 equals the rounded allowance \<open>1000 * 0.06\<close> (the exact product
  is below 60) and the third crossing is kept. In the third the deviation
  \<open>29000000\<close> exceeds the rounded allowance \<open>100000000 * 0.29\<close> and the third crossing
  is dropped.
\<close>

theorem period_locking_witness:
  "2 \<le> length [\<lparr>c_t = 0, c_idx = 0\<rparr>, \<lparr>c_t = 10, c_idx = 3\<rparr>, \<lparr>c_t = 20, c_idx = 6\<rparr>,
                 \<lparr>c_t = 31, c_idx = 9\<rparr>, \<lparr>c_t = 42, c_idx = 12\<rparr>]
   \<and> lock_validCrossings
         [\<lparr>c_t = 0, c_idx = 0\<rparr>, \<lparr>c_t = 10, c_idx = 3\<rparr>, \<lparr>c_t = 20, c_idx = 6\<rparr>,
          \<lparr>c_t = 31, c_idx = 9\<rparr>, \<lparr>c_t = 42, c_idx = 12\<rparr>] (d_div 5 100)
       = take 3 [\<lparr>c_t = 0, c_idx = 0\<rparr>, \<lparr>c_t = 10, c_idx = 3\<rparr>, \<lparr>c_t = 20, c_idx = 6\<rparr>,
                 \<lparr>c_t = 31, c_idx = 9\<rparr>, \<lparr>c_t = 42, c_idx = 12\<rparr>]
   \<and> \<bar>d_sub (d_sub 31 20) (d_sub 10 0)\<bar> > d_mul (d_sub 10 0) (d_div 5 100)
   \<and> lock_validCrossings
         [\<lparr>c_t = 0, c_idx = 0\<rparr>, \<lparr>c_t = 1000, c_idx = 3\<rparr>, \<lparr>c_t = 2060, c_idx = 6\<rparr>]
         (d_div 6 100)
       = [\<lparr>c_t = 0, c_idx = 0\<rparr>, \<lparr>c_t = 1000, c_idx = 3\<rparr>, \<lparr>c_t = 2060, c_idx = 6\<rparr>]
   \<and> 1000 * d_div 6 100 < \<bar>d_sub (d_sub 2060 1000) (d_sub 1000 0)\<bar>
   \<and> lock_validCrossings
         [\<lparr>c_t = 0, c_idx = 0\<rparr>, \<lparr>c_t = 100000000, c_idx = 3\<rparr>, \<lparr>c_t = 229000000, c_idx = 6\<rparr>]
         (d_div 29 100)
       = [\<lparr>c_t = 0, c_idx = 0\<rparr>, \<lparr>c_t = 100000000, c_idx = 3\<rparr>]
   \<and> \<bar>d_sub (d_sub 229000000 100000000) (d_sub 100000000 0)\<bar> = 100000000 * (29 / 100)"
proof -
  let ?a = "[\<lparr>c_t = 0, c_idx = 0\<rparr>, \<lparr>c_t = 10, c_idx = 3\<rparr>, \<lparr>c_t = 20, c_idx = 6\<rparr>,
             \<lparr>c_t = 31, c_idx = 9\<rparr>, \<lparr>c_t = 42, c_idx = 12\<rparr>]"
  let ?b = "[\<lparr>c_t = 0, c_idx = 0\<rparr>, \<lparr>c_t = 1000, c_idx = 3\<rparr>, \<lparr>c_t = 2060, c_idx = 6\<rparr>]"
  let ?c = "[\<lparr>c_t = 0, c_idx = 0\<rparr>, \<lparr>c_t = 100000000, c_idx = 3\<rparr>,
             \<lparr>c_t = 229000000, c_idx = 6\<rparr>]"
  have t: "d_sub 10 0 = 10" "d_sub 31 20 = 11" "d_sub 11 10 = 1"
    "d_sub 1000 0 = 1000" "d_sub 2060 1000 = 1060" "d_sub 1060 1000 = 60"
    "d_sub 100000000 0 = 100000000" "d_sub 229000000 100000000 = 129000000"
    "d_sub 129000000 100000000 = 29000000"
    by (simp_all add: d_sub_def)
  have a: "lock_validCrossings ?a (d_div 5 100) = take 3 ?a"
    using period_locking [of ?a "d_div 5 100" 0 3 6 9 12] by simp
  have a': "\<bar>d_sub (d_sub 31 20) (d_sub 10 0)\<bar> > d_mul (d_sub 10 0) (d_div 5 100)"
    unfolding d_div_5_100 t d_mul_10_p5 by simp
  have lb: "2 \<le> length ?b" by simp
  from period_locking [of ?b "d_div 6 100" 0 0 0 0 0, THEN conjunct2, THEN conjunct1, rule_format, OF lb]
  obtain k where k: "2 \<le> k" "k \<le> length ?b" "lock_validCrossings ?b (d_div 6 100) = take k ?b"
    and stop: "k < length ?b \<longrightarrow>
       \<bar>d_sub (d_sub (c_t (?b ! k)) (c_t (?b ! (k - 1)))) (d_sub (c_t (?b ! 1)) (c_t (?b ! 0)))\<bar>
         > d_mul (d_sub (c_t (?b ! 1)) (c_t (?b ! 0))) (d_div 6 100)"
    by blast
  have "k \<noteq> 2"
  proof
    assume "k = 2"
    with stop show False unfolding d_div_6_100 by (simp add: t d_mul_1000_p6)
  qed
  with k(1,2) have "k = 3" by simp
  with k(3) have b: "lock_validCrossings ?b (d_div 6 100) = ?b" by simp
  have b': "1000 * d_div 6 100 < \<bar>d_sub (d_sub 2060 1000) (d_sub 1000 0)\<bar>"
    unfolding d_div_6_100 t by simp
  have lc: "2 \<le> length ?c" by simp
  from period_locking [of ?c "d_div 29 100" 0 0 0 0 0, THEN conjunct2, THEN conjunct1, rule_format, OF lc]
  obtain j where j: "2 \<le> j" "j \<le> length ?c" "lock_validCrossings ?c (d_div 29 100) = take j ?c"
    and ok: "\<forall>i. 2 \<le> i \<and> i < j \<longrightarrow>
       \<bar>d_sub (d_sub (c_t (?c ! i)) (c_t (?c ! (i - 1)))) (d_sub (c_t (?c ! 1)) (c_t (?c ! 0)))\<bar>
         \<le> d_mul (d_sub (c_t (?c ! 1)) (c_t (?c ! 0))) (d_div 29 100)"
    by blast
  have "j \<noteq> 3"
  proof
    assume "j = 3"
    then have "2 \<le> (2::nat) \<and> 2 < j" by simp
    with ok have "\<bar>d_sub (d_sub (c_t (?c ! 2)) (c_t (?c ! (2 - 1)))) (d_sub (c_t (?c ! 1)) (c_t (?c ! 0)))\<bar>
         \<le> d_mul (d_sub (c_t (?c ! 1)) (c_t (?c ! 0))) (d_div 29 100)"
      by blast
    then show False unfolding d_div_29_100 by (simp add: t d_mul_1e8_p29)
  qed
  with j(1,2) have "j = 2" by simp
  with j(3) have c: "lock_validCrossings ?c (d_div 29 100) = [\<lparr>c_t = 0, c_idx = 0\<rparr>, \<lparr>c_t = 100000000, c_idx = 3\<rparr>]"
    by simp
  have c': "\<bar>d_sub (d_sub 229000000 100000000) (d_sub 100000000 0)\<bar> = 100000000 * (29 / 100)"
    unfolding t by simp
  have l: "2 \<le> length ?a" by simp
  from l a a' b b' c c' show ?thesis by (intro conjI)
qed

section \<open>Order of the crossings\<close>

lemma cross_between:
  fixes t1 t2 y1 y2 m :: real
  assumes "t1 < t2" "y1 \<le> m" "m < y2"
  shows "t1 \<le> t1 + (m - y1) / (y2 - y1) * (t2 - t1)"
    and "t1 + (m - y1) / (y2 - y1) * (t2 - t1) < t2"
proof -
  let ?f = "(m - y1) / (y2 - y1)"
  have d: "0 < y2 - y1" using assms by simp
  have f0: "0 \<le> ?f" using assms d by simp
  have f1: "?f < 1" using assms d by simp
  have "0 \<le> ?f * (t2 - t1)" using f0 assms(1) by (intro mult_nonneg_nonneg) simp_all
  then show "t1 \<le> t1 + ?f * (t2 - t1)" by simp
  have "?f * (t2 - t1) < 1 * (t2 - t1)"
    using f1 assms(1) by (intro mult_strict_right_mono) simp_all
  then show "t1 + ?f * (t2 - t1) < t2" by simp
qed

lemma rawCrossings_strictly_increasing:
  assumes st: "sorted_wrt (<) t_raw" and len: "length t_raw = length u"
  shows "sorted_wrt (<) (map c_t (find_rawCrossings t_raw u m))"
proof -
  let ?P = "\<lambda>i. u ! i \<le> m \<and> u ! (i + 1) > m"
  let ?ct = "\<lambda>i. t_raw ! i + (m - u ! i) / (u ! (i + 1) - u ! i) * (t_raw ! (i + 1) - t_raw ! i)"
  let ?is = "filter ?P [0..<length u - 1]"
  have lt: "t_raw ! a < t_raw ! b" if "a < b" "b < length t_raw" for a b
    using st that by (simp add: sorted_wrt_nth_less)
  have step: "?ct i < ?ct j" if "i \<in> set ?is" "j \<in> set ?is" "i < j" for i j
  proof -
    from that have Pi: "?P i" and Pj: "?P j" and bi: "i + 1 < length u" and bj: "j + 1 < length u"
      by auto
    have "?ct i < t_raw ! (i + 1)"
      using cross_between(2) [of "t_raw ! i" "t_raw ! (i + 1)" "u ! i" m "u ! (i + 1)"]
        lt [of i "i + 1"] Pi bi len by simp
    also have "t_raw ! (i + 1) \<le> t_raw ! j"
    proof (cases "i + 1 = j")
      case True then show ?thesis by simp
    next
      case False
      then have "i + 1 < j" using that(3) by simp
      then show ?thesis using lt [of "i + 1" j] bj len by simp
    qed
    also have "t_raw ! j \<le> ?ct j"
      using cross_between(1) [of "t_raw ! j" "t_raw ! (j + 1)" "u ! j" m "u ! (j + 1)"]
        lt [of j "j + 1"] Pj bj len by simp
    finally show ?thesis .
  qed
  have "sorted_wrt (<) ?is"
    by (intro sorted_wrt_filter) simp
  then have "sorted_wrt (\<lambda>i j. ?ct i < ?ct j) ?is"
    by (rule sorted_wrt_mono_rel [rotated]) (use step in blast)
  then show ?thesis
    by (simp add: find_rawCrossings_eq sorted_wrt_map comp_def)
qed

text \<open>
  C7. When the sample times strictly increase, the valid crossings are an initial
  segment of the raw crossings (the first \<open>length validCrossings\<close> of them, none
  skipped), and their times strictly increase.
\<close>

theorem valid_crossings_prefix:
  assumes "sorted_wrt (<) (map time rawData)"
  shows "let t_raw = prep_t_raw rawData;
             u_processed = smoothSignal (prep_u_original rawData invert) smoothingWindow;
             meanVoltage = calc_meanVoltage u_processed;
             rawCrossings = find_rawCrossings t_raw u_processed meanVoltage;
             validCrossings = lock_validCrossings rawCrossings periodTolerancePct
         in prefix validCrossings rawCrossings
            \<and> validCrossings = take (length validCrossings) rawCrossings
            \<and> sorted_wrt (<) (map c_t validCrossings)"
proof -
  define t_raw where "t_raw = prep_t_raw rawData"
  define u where "u = smoothSignal (prep_u_original rawData invert) smoothingWindow"
  define raw where "raw = find_rawCrossings t_raw u (calc_meanVoltage u)"
  define valid where "valid = lock_validCrossings raw periodTolerancePct"
  have st: "sorted_wrt (<) t_raw"
    using assms by (simp add: t_raw_def prep_t_raw_def sorted_wrt_map)
  have len: "length t_raw = length u"
    by (simp add: t_raw_def u_def prep_t_raw_def prep_u_original_def length_smoothSignal Let_def)
  have sr: "sorted_wrt (<) (map c_t raw)"
    unfolding raw_def by (rule rawCrossings_strictly_increasing [OF st len])
  obtain k where k: "valid = take k raw"
    unfolding valid_def using lock_validCrossings_is_take by blast
  have p: "prefix valid raw" unfolding k by (rule take_is_prefix)
  have tk: "valid = take (length valid) raw"
    using k by (metis append_eq_conv_conj p prefix_def)
  have sv: "sorted_wrt (<) (map c_t valid)"
    unfolding k take_map [symmetric] using sr by (rule sorted_wrt_take)
  show ?thesis
    using p tk sv unfolding Let_def t_raw_def u_def raw_def valid_def by simp
qed

theorem valid_crossings_prefix_witness:
  "sorted_wrt (<) (map time square_trace)
   \<and> (let t_raw = prep_t_raw square_trace;
           u_processed = smoothSignal (prep_u_original square_trace False) 1;
           meanVoltage = calc_meanVoltage u_processed;
           rawCrossings = find_rawCrossings t_raw u_processed meanVoltage;
           validCrossings = lock_validCrossings rawCrossings (10 / 100)
       in prefix validCrossings rawCrossings
          \<and> validCrossings = take (length validCrossings) rawCrossings
          \<and> sorted_wrt (<) (map c_t validCrossings))
   \<and> lock_validCrossings
         (find_rawCrossings (prep_t_raw square_trace)
            (smoothSignal (prep_u_original square_trace False) 1)
            (calc_meanVoltage (smoothSignal (prep_u_original square_trace False) 1)))
         (10 / 100)
       = [\<lparr>c_t = 500000, c_idx = 0\<rparr>, \<lparr>c_t = 2500000, c_idx = 2\<rparr>, \<lparr>c_t = 4500000, c_idx = 4\<rparr>]"
proof -
  have h: "sorted_wrt (<) (map time square_trace)" by simp
  have v: "lock_validCrossings
         (find_rawCrossings (prep_t_raw square_trace)
            (smoothSignal (prep_u_original square_trace False) 1)
            (calc_meanVoltage (smoothSignal (prep_u_original square_trace False) 1)))
         (10 / 100)
       = [\<lparr>c_t = 500000, c_idx = 0\<rparr>, \<lparr>c_t = 2500000, c_idx = 2\<rparr>, \<lparr>c_t = 4500000, c_idx = 4\<rparr>]"
    by (simp only: ex_t ex_u ex_mean ex_raw ex_valid)
  from h valid_crossings_prefix [OF h, of False 1 "10 / 100"] v show ?thesis
    by (intro conjI)
qed

section \<open>Empty input\<close>

text \<open>
  C8. When the parser has produced no sample, \<open>processSignal\<close> returns \<open>null\<close> at its
  first statement, whatever the settings are; so does the processing hook, for an
  empty array as for the \<open>null\<close> that the upload handler stores in that case; and the
  fit hook, which receives that \<open>null\<close>, returns \<open>null\<close> as well: no smoothing,
  baseline, crossing, peak, fit or metric value is computed.
\<close>

theorem empty_input_halts:
  "processSignal [] smoothingWindow periodTolerancePct invert = None
   \<and> processedData (Some []) smoothingWindow periodTolerance invert = None
   \<and> processedData None smoothingWindow periodTolerance invert = None
   \<and> fitResults (processSignal [] smoothingWindow periodTolerancePct invert) = None
   \<and> fitResults None = None"
  by (simp add: processSignal_def processedData_def fitResults_def)

theorem empty_input_halts_witness:
  "processSignal [] 10 (10 / 100) False = None
   \<and> processedData (Some []) 10 10 False = None
   \<and> processedData None 10 10 False = None
   \<and> fitResults (processSignal [] 10 (10 / 100) False) = None
   \<and> fitResults None = None"
  by (rule empty_input_halts)

section \<open>The parser's clipping filter and its third column\<close>

lemma split_ws_first: "split_ws s ! 0 = takeWhile (\<lambda>c. \<not> isWhiteSpace c) s"
  by (subst split_ws.simps) (simp add: Let_def)

lemma split_ws_Nil: "split_ws [] = [[]]"
  by (subst split_ws.simps) simp

lemma parseFloat_quote:
  assumes "c = CHR 0x22 \<or> c = CHR 0x27"
  shows "parseFloat (c # cs) = NaN"
proof -
  have s: "strip_sign (dropWhile isWhiteSpace (c # cs)) = (False, c # cs)"
    using assms by (auto simp: strip_sign_def isWhiteSpace_def)
  have i: "take 8 (c # cs) \<noteq> ''Infinity''"
    using assms by auto
  have d: "takeWhile isDigit (c # cs) = []" "dropWhile isDigit (c # cs) = c # cs" "c \<noteq> CHR ''.''"
    using assms by (auto simp: isDigit_def)
  show ?thesis
    unfolding parseFloat_def s by (simp only: i d Let_def prod.case list.case if_False if_True simp_thms)
qed

lemma line_parts_quote:
  assumes "trim line = c # cs" and "c = CHR 0x22 \<or> c = CHR 0x27"
  shows "parseFloat (line_parts line ! 0) = NaN"
proof -
  have nws: "\<not> isWhiteSpace c" using assms(2) by (auto simp: isWhiteSpace_def)
  have "line_parts line ! 0 =
      takeWhile (\<lambda>c. \<not> isWhiteSpace c) (map (\<lambda>c. if c = CHR '','' then CHR ''.'' else c) (c # cs))"
    by (simp only: line_parts_def Let_def assms(1) split_ws_first)
  also have "\<dots> = c # takeWhile (\<lambda>c. \<not> isWhiteSpace c) (map (\<lambda>c. if c = CHR '','' then CHR ''.'' else c) cs)"
    using nws assms(2) by auto
  finally show ?thesis using assms(2) by (simp only: parseFloat_quote)
qed

lemma parse_line_guards:
  assumes "2 \<le> length (line_parts line)" and "parseFloat (line_parts line ! 0) = Fin t"
  shows "trim line \<noteq> []"
    and "\<not> (take 1 (trim line) = [CHR 0x22] \<or> take 1 (trim line) = [CHR 0x27])"
proof -
  show ne: "trim line \<noteq> []"
  proof
    assume "trim line = []"
    then have "line_parts line = [[]]" by (simp add: line_parts_def split_ws_Nil)
    with assms(1) show False by simp
  qed
  show "\<not> (take 1 (trim line) = [CHR 0x22] \<or> take 1 (trim line) = [CHR 0x27])"
  proof
    assume q: "take 1 (trim line) = [CHR 0x22] \<or> take 1 (trim line) = [CHR 0x27]"
    from ne obtain c cs where cs: "trim line = c # cs" by (cases "trim line") auto
    with q have "c = CHR 0x22 \<or> c = CHR 0x27" by simp
    from line_parts_quote [OF cs this] assms(2) show False by simp
  qed
qed

lemma fold_parse_lines:
  "fold (\<lambda>line data. case parse_line line of None \<Rightarrow> data | Some d \<Rightarrow> data @ [d]) ls acc
     = acc @ List.map_filter parse_line ls"
  by (induction ls arbitrary: acc) (auto simp: List.map_filter_simps split: option.splits)

lemma parseFileContent_eq:
  "parseFileContent content = List.map_filter parse_line (split_on (CHR 0x0A) content)"
  by (simp add: parseFileContent_def fold_parse_lines)

lemmas parse_eval = parseFloat_def strip_sign_def isWhiteSpace_def isDigit_def exponentPart_def
  digitsVal_def toNumber_def Let_def

lemma parseFloat_1e31: "parseFloat ''1e31'' = Fin (10 ^ 31)"
  by (simp add: parse_eval)

lemma parseFloat_2e308: "parseFloat ''2e308'' = PosInfinity"
  by (simp add: parse_eval)

lemma split_ws_row1: "split_ws ''0 1 1e31'' = [''0'', ''1'', ''1e31'']"
  by (simp add: split_ws.simps [of "''0 1 1e31''"] split_ws.simps [of "''1 1e31''"]
      split_ws.simps [of "''1e31''"] isWhiteSpace_def)

lemma line_parts_row1: "line_parts ''0 1 1e31'' = [''0'', ''1'', ''1e31'']"
  by (simp add: line_parts_def trim_def split_ws_row1 isWhiteSpace_def)

lemma parse_line_row1: "parse_line ''0 1 1e31'' = Some \<lparr>time = 0, voltage = 1\<rparr>"
  by (simp add: parse_line_def line_parts_row1 trim_def parse_eval)

lemma split_ws_row2: "split_ws ''0 1e31 5'' = [''0'', ''1e31'', ''5'']"
  by (simp add: split_ws.simps [of "''0 1e31 5''"] split_ws.simps [of "''1e31 5''"]
      split_ws.simps [of "''5''"] isWhiteSpace_def)

lemma line_parts_row2: "line_parts ''0 1e31 5'' = [''0'', ''1e31'', ''5'']"
  by (simp add: line_parts_def trim_def split_ws_row2 isWhiteSpace_def)

lemma split_ws_row3: "split_ws ''0.5 1.5 2e308'' = [''0.5'', ''1.5'', ''2e308'']"
  by (simp add: split_ws.simps [of "''0.5 1.5 2e308''"] split_ws.simps [of "''1.5 2e308''"]
      split_ws.simps [of "''2e308''"] isWhiteSpace_def)

lemma line_parts_row3: "line_parts ''0,5 1,5 2e308'' = [''0.5'', ''1.5'', ''2e308'']"
  by (simp add: line_parts_def trim_def split_ws_row3 isWhiteSpace_def)

lemma parseFloat_row3: "parseFloat ''0.5'' = Fin (1 / 2)" "parseFloat ''1.5'' = Fin (3 / 2)"
  by (simp_all add: parse_eval)

text \<open>
  C2, as the code has it. A row with at least two parts whose second part, the voltage
  column, does not parse to a finite number of magnitude at most \<open>10^30\<close> pushes
  nothing, whatever the number of columns. (A third column of magnitude \<open>10^30\<close> or
  more does not exclude the row: see the counterexample, and C10.)
\<close>

theorem clipped_voltage_skipped:
  assumes "2 \<le> length (line_parts line)"
    and "\<forall>v1. parseFloat (line_parts line ! 1) = Fin v1 \<longrightarrow> \<bar>v1\<bar> > 10 ^ 30"
  shows "parse_line line = None"
proof (cases "parseFloat (line_parts line ! 1)")
  case (Fin v1)
  with assms(2) have "\<bar>v1\<bar> > 10 ^ 30" by simp
  with Fin show ?thesis
    by (simp add: parse_line_def Let_def split: jsnum.splits)
qed (simp_all add: parse_line_def Let_def split: jsnum.splits)

theorem clipped_voltage_skipped_witness:
  "2 \<le> length (line_parts ''0 1e31 5'')
   \<and> parseFloat (line_parts ''0 1e31 5'' ! 1) = Fin (10 ^ 31)
   \<and> (10::real) ^ 30 < \<bar>10 ^ 31\<bar>
   \<and> parse_line ''0 1e31 5'' = None"
proof -
  have l: "2 \<le> length (line_parts ''0 1e31 5'')" by (simp add: line_parts_row2)
  have v: "parseFloat (line_parts ''0 1e31 5'' ! 1) = Fin (10 ^ 31)"
    by (simp add: line_parts_row2 parseFloat_1e31)
  have c: "\<forall>v1. parseFloat (line_parts ''0 1e31 5'' ! 1) = Fin v1 \<longrightarrow> \<bar>v1\<bar> > 10 ^ 30"
    unfolding v by simp
  from clipped_voltage_skipped [OF l c] l v show ?thesis by simp
qed

text \<open>
  The claim as stated fails: the three-column row \<open>0 1 1e31\<close>, whose third column
  has magnitude \<open>10^31\<close>, is kept, with the voltage of its second column.
\<close>

theorem clipping_third_column_counterexample:
  "parseFloat (line_parts ''0 1 1e31'' ! 2) = Fin (10 ^ 31)
   \<and> (10::real) ^ 30 < \<bar>10 ^ 31\<bar>
   \<and> parseFileContent ''0 1 1e31'' = [\<lparr>time = 0, voltage = 1\<rparr>]"
  by (simp add: line_parts_row1 parseFloat_1e31 parseFileContent_eq parse_line_row1
      List.map_filter_simps)

lemma split_on_no_separator: "c \<notin> set s \<Longrightarrow> split_on c s = [s]"
  by (induction s) auto

lemma parseFileContent_single:
  assumes "CHR 0x0A \<notin> set line"
  shows "parseFileContent line = (case parse_line line of None \<Rightarrow> [] | Some d \<Rightarrow> [d])"
  by (simp add: parseFileContent_eq split_on_no_separator [OF assms] List.map_filter_simps
      split: option.splits)

lemma parseFileContent_member:
  assumes "line \<in> set (split_on (CHR 0x0A) content)" and "parse_line line = Some d"
  shows "d \<in> set (parseFileContent content)"
proof -
  have "d \<in> set (List.map_filter parse_line ls)" if "line \<in> set ls" for ls
    using that assms(2) by (induction ls) (auto simp: List.map_filter_simps split: option.splits)
  from this [OF assms(1)] show ?thesis by (simp only: parseFileContent_eq)
qed

text \<open>
  C10. A line with at least three parts, whose first two parts parse to finite numbers
  and whose voltage has magnitude at most \<open>10^30\<close>, and whose third part does not
  parse to a finite number of magnitude below \<open>10^30\<close>, is kept: the row pushed has
  the voltage of the second part alone. On the parser: a file that consists of this
  line gives exactly this row, and a file that has this line among its lines has this
  row in its result.
\<close>

theorem third_column_fallback:
  assumes "3 \<le> length (line_parts line)"
    and "parseFloat (line_parts line ! 0) = Fin t"
    and "parseFloat (line_parts line ! 1) = Fin v1"
    and "\<bar>v1\<bar> \<le> 10 ^ 30"
    and "\<forall>v2. parseFloat (line_parts line ! 2) = Fin v2 \<longrightarrow> \<not> \<bar>v2\<bar> < 10 ^ 30"
  shows "parse_line line = Some \<lparr>time = t, voltage = v1\<rparr>
    \<and> (CHR 0x0A \<notin> set line \<longrightarrow> parseFileContent line = [\<lparr>time = t, voltage = v1\<rparr>])
    \<and> (line \<in> set (split_on (CHR 0x0A) content) \<longrightarrow>
          \<lparr>time = t, voltage = v1\<rparr> \<in> set (parseFileContent content))"
proof -
  have len: "2 \<le> length (line_parts line)" using assms(1) by simp
  note g = parse_line_guards [OF len assms(2)]
  have v: "(case parseFloat (line_parts line ! 2) of
              Fin v2 \<Rightarrow> if \<bar>v2\<bar> < 10 ^ 30 then (v1 + v2) / 2 else v1
            | _ \<Rightarrow> v1) = v1"
    using assms(5) by (cases "parseFloat (line_parts line ! 2)") auto
  have row: "parse_line line = Some \<lparr>time = t, voltage = v1\<rparr>"
    using g len assms(1-4) v by (simp add: parse_line_def Let_def)
  have single: "parseFileContent line = [\<lparr>time = t, voltage = v1\<rparr>]"
    if "CHR 0x0A \<notin> set line"
    using parseFileContent_single [OF that] row by simp
  have member: "\<lparr>time = t, voltage = v1\<rparr> \<in> set (parseFileContent content)"
    if "line \<in> set (split_on (CHR 0x0A) content)"
    using parseFileContent_member [OF that row] .
  from row single member show ?thesis by blast
qed

theorem third_column_fallback_witness:
  "3 \<le> length (line_parts ''0,5 1,5 2e308'')
   \<and> parseFloat (line_parts ''0,5 1,5 2e308'' ! 0) = Fin (1 / 2)
   \<and> parseFloat (line_parts ''0,5 1,5 2e308'' ! 1) = Fin (3 / 2)
   \<and> \<bar>3 / 2 :: real\<bar> \<le> 10 ^ 30
   \<and> parseFloat (line_parts ''0,5 1,5 2e308'' ! 2) = PosInfinity
   \<and> parse_line ''0,5 1,5 2e308'' = Some \<lparr>time = 1 / 2, voltage = 3 / 2\<rparr>
   \<and> parseFileContent ''0,5 1,5 2e308'' = [\<lparr>time = 1 / 2, voltage = 3 / 2\<rparr>]
   \<and> ''0,5 1,5 2e308'' \<in> set (split_on (CHR 0x0A) (''# t u'' @ [CHR 0x0A] @ ''0,5 1,5 2e308''))
   \<and> \<lparr>time = 1 / 2, voltage = 3 / 2\<rparr>
        \<in> set (parseFileContent (''# t u'' @ [CHR 0x0A] @ ''0,5 1,5 2e308''))"
proof -
  have l: "3 \<le> length (line_parts ''0,5 1,5 2e308'')" by (simp add: line_parts_row3)
  have t: "parseFloat (line_parts ''0,5 1,5 2e308'' ! 0) = Fin (1 / 2)"
    by (simp add: line_parts_row3 parseFloat_row3)
  have v: "parseFloat (line_parts ''0,5 1,5 2e308'' ! 1) = Fin (3 / 2)"
    by (simp add: line_parts_row3 parseFloat_row3)
  have b: "\<bar>3 / 2 :: real\<bar> \<le> 10 ^ 30" by simp
  have w: "parseFloat (line_parts ''0,5 1,5 2e308'' ! 2) = PosInfinity"
    by (simp add: line_parts_row3 parseFloat_2e308)
  have c: "\<forall>v2. parseFloat (line_parts ''0,5 1,5 2e308'' ! 2) = Fin v2 \<longrightarrow> \<not> \<bar>v2\<bar> < 10 ^ 30"
    unfolding w by simp
  have n: "CHR 0x0A \<notin> set ''0,5 1,5 2e308''" by simp
  have m: "''0,5 1,5 2e308'' \<in> set (split_on (CHR 0x0A) (''# t u'' @ [CHR 0x0A] @ ''0,5 1,5 2e308''))"
    by simp
  note f = third_column_fallback [OF l t v b c, of "''# t u'' @ [CHR 0x0A] @ ''0,5 1,5 2e308''"]
  from f have r: "parse_line ''0,5 1,5 2e308'' = Some \<lparr>time = 1 / 2, voltage = 3 / 2\<rparr>" by blast
  from f n have s: "parseFileContent ''0,5 1,5 2e308'' = [\<lparr>time = 1 / 2, voltage = 3 / 2\<rparr>]"
    by blast
  from f m have p: "\<lparr>time = 1 / 2, voltage = 3 / 2\<rparr>
        \<in> set (parseFileContent (''# t u'' @ [CHR 0x0A] @ ''0,5 1,5 2e308''))"
    by blast
  from l t v b w r s m p show ?thesis by (intro conjI)
qed

section \<open>The envelope fit\<close>





section \<open>The baseline handed to the fit\<close>

lemma fit_C_is_argument: "fitExponentialCurve peaks c = Some f \<Longrightarrow> fit_C f = c"
  by (auto simp: fitExponentialCurve_def Let_def split: if_splits prod.splits)

lemma processSignal_meanVoltage:
  "processSignal rawData W p invert = Some r \<Longrightarrow> r_meanVoltage r = 0"
  by (auto simp: processSignal_def Let_def split: if_splits)

text \<open>
  C3, as the code has it. The \<open>C\<close> of a fit is the baseline argument of
  \<open>fitExponentialCurve\<close>, passed through and not fitted; in a run of the two hooks of
  \<open>App\<close> that argument is the \<open>meanVoltage\<close> key of the processed data, the literal
  \<open>0\<close> of the normalised frame, so the \<open>C\<close> of every fit the pipeline produces is \<open>0\<close>.
\<close>

theorem fit_C_fixed:
  "(fitExponentialCurve peaks c = Some f \<longrightarrow> fit_C f = c)
   \<and> (fitResults (processedData data W tol invert) = Some fr \<and> fit fr = Some f' \<longrightarrow> fit_C f' = 0)"
proof (intro conjI impI)
  assume "fitExponentialCurve peaks c = Some f"
  then show "fit_C f = c" by (rule fit_C_is_argument)
next
  assume a: "fitResults (processedData data W tol invert) = Some fr \<and> fit fr = Some f'"
  then obtain r where r: "processedData data W tol invert = Some r"
    by (cases "processedData data W tol invert") (auto simp: fitResults_def)
  then obtain d where "processSignal d W (d_div tol 100) invert = Some r"
    by (cases data) (auto simp: processedData_def)
  then have m: "r_meanVoltage r = 0" by (rule processSignal_meanVoltage)
  from a r have "fitExponentialCurve (r_peaks r) (r_meanVoltage r) = Some f'"
    by (auto simp: fitResults_def Let_def split: if_splits)
  then show "fit_C f' = 0" using m by (simp add: fit_C_is_argument)
qed

theorem fit_C_fixed_witness:
  "fitExponentialCurve [\<lparr>p_x = 500000, p_y = 1\<rparr>, \<lparr>p_x = 2500000, p_y = 1\<rparr>] 0
     = Some \<lparr>fit_A = 1, fit_beta = 0, fit_C = 0\<rparr>
   \<and> fitResults (processedData (Some square_trace) 1 10 False)
     = Some \<lparr>fit = Some \<lparr>fit_A = 1, fit_beta = 0, fit_C = 0\<rparr>,
             metrics = Some \<lparr>frequencyKhz = 1 / 2000, m_beta = 0, lambda = 0,
                              periodUs = 2000000, validCycles = 2\<rparr>\<rparr>
   \<and> fit_C \<lparr>fit_A = 1, fit_beta = 0, fit_C = 0\<rparr> = 0"
proof -
  have a: "fitResults (processedData (Some square_trace) 1 10 False)
     = Some \<lparr>fit = Some \<lparr>fit_A = 1, fit_beta = 0, fit_C = 0\<rparr>,
             metrics = Some \<lparr>frequencyKhz = 1 / 2000, m_beta = 0, lambda = 0,
                              periodUs = 2000000, validCycles = 2\<rparr>\<rparr>"
    by (rule ex_fitResults_hook)
  from fit_C_fixed [of "[\<lparr>p_x = 500000, p_y = 1\<rparr>, \<lparr>p_x = 2500000, p_y = 1\<rparr>]" 0
      "\<lparr>fit_A = 1, fit_beta = 0, fit_C = 0\<rparr>" "Some square_trace" 1 10 False
      "\<lparr>fit = Some \<lparr>fit_A = 1, fit_beta = 0, fit_C = 0\<rparr>,
             metrics = Some \<lparr>frequencyKhz = 1 / 2000, m_beta = 0, lambda = 0,
                              periodUs = 2000000, validCycles = 2\<rparr>\<rparr>"
      "\<lparr>fit_A = 1, fit_beta = 0, fit_C = 0\<rparr>"]
  have "fit_C \<lparr>fit_A = 1, fit_beta = 0, fit_C = 0\<rparr> = (0::real)" by simp
  with a ex_fit show ?thesis by (intro conjI)
qed

text \<open>
  The claim as stated fails: on the sample trace the baseline stage estimates a DC
  level of \<open>1\<close> V, and the fit the pipeline returns has \<open>C = 0\<close>.
\<close>

theorem fit_C_baseline_counterexample:
  "calc_meanVoltage (smoothSignal (prep_u_original square_trace False) 1) = 1
   \<and> fitResults (processedData (Some square_trace) 1 10 False)
     = Some \<lparr>fit = Some \<lparr>fit_A = 1, fit_beta = 0, fit_C = 0\<rparr>,
             metrics = Some \<lparr>frequencyKhz = 1 / 2000, m_beta = 0, lambda = 0,
                              periodUs = 2000000, validCycles = 2\<rparr>\<rparr>"
proof -
  have m: "calc_meanVoltage (smoothSignal (prep_u_original square_trace False) 1) = 1"
    by (simp only: ex_u ex_mean)
  have f: "fitResults (processedData (Some square_trace) 1 10 False)
     = Some \<lparr>fit = Some \<lparr>fit_A = 1, fit_beta = 0, fit_C = 0\<rparr>,
             metrics = Some \<lparr>frequencyKhz = 1 / 2000, m_beta = 0, lambda = 0,
                              periodUs = 2000000, validCycles = 2\<rparr>\<rparr>"
    by (rule ex_fitResults_hook)
  from m f show ?thesis by (intro conjI)
qed

section \<open>Derived metrics\<close>

text \<open>
  C5. When the fit hook has a fit and \<open>avgPeriodUs > 0\<close>, the metrics are
  \<open>frequencyKhz = (1 / (avgPeriodUs * 1e-6)) / 1000\<close>, the logarithmic decrement
  \<open>lambda = |beta| * avgPeriodUs\<close>, the damping coefficient
  \<open>lambda / (avgPeriodUs * 1e-6)\<close>, the period, and the number of peaks as the count
  of valid cycles; \<open>avgPeriodUs = 1000\<close> with \<open>beta = -0.002\<close> gives \<open>lambda = 2\<close>
  and \<open>frequencyKhz = 1\<close>.
\<close>

theorem metrics_derivation:
  "(fitResults (Some r) = Some fr \<and> fit fr = Some f \<and> r_avgPeriodUs r > 0 \<longrightarrow>
      metrics fr = Some \<lparr>frequencyKhz = (1 / (r_avgPeriodUs r * 0.000001)) / 1000,
                          m_beta = (\<bar>fit_beta f\<bar> * r_avgPeriodUs r) / (r_avgPeriodUs r * 0.000001),
                          lambda = \<bar>fit_beta f\<bar> * r_avgPeriodUs r,
                          periodUs = r_avgPeriodUs r,
                          validCycles = length (r_peaks r)\<rparr>)
   \<and> (0 < avgPeriodUs \<longrightarrow>
        derive_metrics (Some f) avgPeriodUs peaks
          = Some \<lparr>frequencyKhz = (1 / (avgPeriodUs * 0.000001)) / 1000,
                  m_beta = (\<bar>fit_beta f\<bar> * avgPeriodUs) / (avgPeriodUs * 0.000001),
                  lambda = \<bar>fit_beta f\<bar> * avgPeriodUs,
                  periodUs = avgPeriodUs,
                  validCycles = length peaks\<rparr>)
   \<and> derive_metrics (Some \<lparr>fit_A = a, fit_beta = - 0.002, fit_C = c\<rparr>) 1000 peaks
       = Some \<lparr>frequencyKhz = 1, m_beta = 2000, lambda = 2, periodUs = 1000,
               validCycles = length peaks\<rparr>"
proof (intro conjI impI)
  assume a: "fitResults (Some r) = Some fr \<and> fit fr = Some f \<and> r_avgPeriodUs r > 0"
  then have fr: "fr = \<lparr>fit = fitExponentialCurve (r_peaks r) (r_meanVoltage r),
       metrics = derive_metrics (fitExponentialCurve (r_peaks r) (r_meanVoltage r))
                   (r_avgPeriodUs r) (r_peaks r)\<rparr>"
    by (auto simp: fitResults_def Let_def split: if_splits)
  with a have f: "fitExponentialCurve (r_peaks r) (r_meanVoltage r) = Some f" by simp
  show "metrics fr = Some \<lparr>frequencyKhz = (1 / (r_avgPeriodUs r * 0.000001)) / 1000,
                          m_beta = (\<bar>fit_beta f\<bar> * r_avgPeriodUs r) / (r_avgPeriodUs r * 0.000001),
                          lambda = \<bar>fit_beta f\<bar> * r_avgPeriodUs r,
                          periodUs = r_avgPeriodUs r,
                          validCycles = length (r_peaks r)\<rparr>"
    using a unfolding fr f by (simp add: derive_metrics_def Let_def)
next
  assume "0 < avgPeriodUs"
  then show "derive_metrics (Some f) avgPeriodUs peaks
          = Some \<lparr>frequencyKhz = (1 / (avgPeriodUs * 0.000001)) / 1000,
                  m_beta = (\<bar>fit_beta f\<bar> * avgPeriodUs) / (avgPeriodUs * 0.000001),
                  lambda = \<bar>fit_beta f\<bar> * avgPeriodUs,
                  periodUs = avgPeriodUs,
                  validCycles = length peaks\<rparr>"
    by (simp add: derive_metrics_def Let_def)
next
  show "derive_metrics (Some \<lparr>fit_A = a, fit_beta = - 0.002, fit_C = c\<rparr>) 1000 peaks
       = Some \<lparr>frequencyKhz = 1, m_beta = 2000, lambda = 2, periodUs = 1000,
               validCycles = length peaks\<rparr>"
    by (simp add: derive_metrics_def Let_def)
qed


theorem metrics_derivation_witness:
  "fitResults (processSignal square_trace 1 (10 / 100) False)
     = Some \<lparr>fit = Some \<lparr>fit_A = 1, fit_beta = 0, fit_C = 0\<rparr>,
             metrics = Some \<lparr>frequencyKhz = 1 / 2000, m_beta = 0, lambda = 0,
                              periodUs = 2000000, validCycles = 2\<rparr>\<rparr>
   \<and> (0::real) < 2000000
   \<and> metrics \<lparr>fit = Some \<lparr>fit_A = 1, fit_beta = 0, fit_C = 0\<rparr>,
               metrics = Some \<lparr>frequencyKhz = 1 / 2000, m_beta = 0, lambda = 0,
                                periodUs = 2000000, validCycles = 2\<rparr>\<rparr>
     = Some \<lparr>frequencyKhz = (1 / (2000000 * 0.000001)) / 1000,
             m_beta = (\<bar>0\<bar> * 2000000) / (2000000 * 0.000001),
             lambda = \<bar>0\<bar> * 2000000, periodUs = 2000000, validCycles = 2\<rparr>
   \<and> derive_metrics (Some \<lparr>fit_A = 5, fit_beta = - 0.002, fit_C = 0\<rparr>) 1000 []
     = Some \<lparr>frequencyKhz = 1, m_beta = 2000, lambda = 2, periodUs = 1000, validCycles = 0\<rparr>"
proof -
  let ?r = "\<lparr>r_t = [-500000, 500000, 1500000, 2500000, 3500000, 4500000],
           r_u_raw = [-1, 1, -1, 1, -1, 1], r_u_smooth = [-1, 1, -1, 1, -1, 1],
           r_peaks = [\<lparr>p_x = 500000, p_y = 1\<rparr>, \<lparr>p_x = 2500000, p_y = 1\<rparr>],
           r_zeroCrossings = [\<lparr>c_t = 0, c_idx = 0\<rparr>, \<lparr>c_t = 2000000, c_idx = 2\<rparr>, \<lparr>c_t = 4000000, c_idx = 4\<rparr>],
           r_meanVoltage = 0, r_avgPeriodUs = 2000000, r_isInverted = False\<rparr>"
  let ?f = "\<lparr>fit_A = 1, fit_beta = 0, fit_C = 0 :: real\<rparr>"
  let ?fr = "\<lparr>fit = Some ?f,
             metrics = Some \<lparr>frequencyKhz = 1 / 2000, m_beta = 0, lambda = 0,
                              periodUs = 2000000, validCycles = 2\<rparr>\<rparr>"
  have a: "fitResults (Some ?r) = Some ?fr"
    using ex_fitResults unfolding ex_processed .
  have b: "fit ?fr = Some ?f" by simp
  have c: "r_avgPeriodUs ?r > 0" by simp
  note md = metrics_derivation [of ?r ?fr ?f 1000 "[]" 5 0]
  from md a b c have m: "metrics ?fr = Some \<lparr>frequencyKhz = (1 / (r_avgPeriodUs ?r * 0.000001)) / 1000,
                          m_beta = (\<bar>fit_beta ?f\<bar> * r_avgPeriodUs ?r) / (r_avgPeriodUs ?r * 0.000001),
                          lambda = \<bar>fit_beta ?f\<bar> * r_avgPeriodUs ?r,
                          periodUs = r_avgPeriodUs ?r,
                          validCycles = length (r_peaks ?r)\<rparr>"
    by blast
  from md have d: "derive_metrics (Some \<lparr>fit_A = 5, fit_beta = - 0.002, fit_C = 0\<rparr>) 1000 []
     = Some \<lparr>frequencyKhz = 1, m_beta = 2000, lambda = 2, periodUs = 1000, validCycles = 0\<rparr>"
    by simp
  have z: "(0::real) < 2000000" by simp
  from m have m': "metrics ?fr
     = Some \<lparr>frequencyKhz = (1 / (2000000 * 0.000001)) / 1000,
             m_beta = (\<bar>0\<bar> * 2000000) / (2000000 * 0.000001),
             lambda = \<bar>0\<bar> * 2000000, periodUs = 2000000, validCycles = 2\<rparr>"
    by simp
  from ex_fitResults z m' d show ?thesis by (intro conjI)
qed

section \<open>Normalisation\<close>

text \<open>
  C6. In a run that returns data with at least one valid crossing, the first returned
  crossing has time \<open>0\<close>, the returned \<open>meanVoltage\<close> is \<open>0\<close>, and the returned time
  series, voltage series, peaks and crossings are the computed ones shifted by the
  time of the first valid crossing and by the estimated mean voltage respectively.
\<close>

theorem normalization_invariant:
  assumes "processSignal rawData smoothingWindow periodTolerancePct invert = Some r"
    and "r_zeroCrossings r \<noteq> []"
  shows "let t_raw = prep_t_raw rawData;
             u_original = prep_u_original rawData invert;
             u_processed = smoothSignal u_original smoothingWindow;
             meanVoltage = calc_meanVoltage u_processed;
             validCrossings =
               lock_validCrossings (find_rawCrossings t_raw u_processed meanVoltage) periodTolerancePct;
             peaks = detect_peaks t_raw u_processed validCrossings meanVoltage;
             t_offset = c_t (validCrossings ! 0)
         in validCrossings \<noteq> []
            \<and> c_t (r_zeroCrossings r ! 0) = 0
            \<and> r_meanVoltage r = 0
            \<and> r_t r = map (\<lambda>t. t - t_offset) t_raw
            \<and> r_u_raw r = map (\<lambda>u. u - meanVoltage) u_original
            \<and> r_u_smooth r = map (\<lambda>u. u - meanVoltage) u_processed
            \<and> r_peaks r = map (\<lambda>p. \<lparr>p_x = p_x p - t_offset, p_y = p_y p - meanVoltage\<rparr>) peaks
            \<and> r_zeroCrossings r
                = map (\<lambda>c. \<lparr>c_t = c_t c - t_offset, c_idx = c_idx c\<rparr>) validCrossings"
proof -
  define t_raw where "t_raw = prep_t_raw rawData"
  define u_original where "u_original = prep_u_original rawData invert"
  define u_processed where "u_processed = smoothSignal u_original smoothingWindow"
  define meanVoltage where "meanVoltage = calc_meanVoltage u_processed"
  define validCrossings where "validCrossings =
    lock_validCrossings (find_rawCrossings t_raw u_processed meanVoltage) periodTolerancePct"
  define peaks where "peaks = detect_peaks t_raw u_processed validCrossings meanVoltage"
  define t_offset where "t_offset = norm_t_offset t_raw validCrossings"
  have r: "r = \<lparr>r_t = map (\<lambda>t. t - t_offset) t_raw,
               r_u_raw = map (\<lambda>u. u - meanVoltage) u_original,
               r_u_smooth = map (\<lambda>u. u - meanVoltage) u_processed,
               r_peaks = map (\<lambda>p. \<lparr>p_x = p_x p - t_offset, p_y = p_y p - meanVoltage\<rparr>) peaks,
               r_zeroCrossings = map (\<lambda>c. \<lparr>c_t = c_t c - t_offset, c_idx = c_idx c\<rparr>) validCrossings,
               r_meanVoltage = 0, r_avgPeriodUs = calc_avgPeriodUs validCrossings,
               r_isInverted = invert\<rparr>"
    using assms(1)
    unfolding processSignal_def Let_def t_raw_def u_original_def u_processed_def meanVoltage_def
      validCrossings_def peaks_def t_offset_def
    by (simp split: if_splits)
  have ne: "validCrossings \<noteq> []" using assms(2) unfolding r by simp
  then have off: "t_offset = c_t (validCrossings ! 0)"
    by (simp add: t_offset_def norm_t_offset_def)
  have z: "c_t (r_zeroCrossings r ! 0) = 0"
    using ne unfolding r off by (cases validCrossings) simp_all
  show ?thesis
    unfolding Let_def t_raw_def [symmetric] u_original_def [symmetric] u_processed_def [symmetric]
      meanVoltage_def [symmetric] validCrossings_def [symmetric] peaks_def [symmetric] off [symmetric]
    using ne z unfolding r by simp
qed

theorem normalization_invariant_witness:
  "processSignal square_trace 1 (10 / 100) False =
     Some \<lparr>r_t = [-500000, 500000, 1500000, 2500000, 3500000, 4500000],
           r_u_raw = [-1, 1, -1, 1, -1, 1], r_u_smooth = [-1, 1, -1, 1, -1, 1],
           r_peaks = [\<lparr>p_x = 500000, p_y = 1\<rparr>, \<lparr>p_x = 2500000, p_y = 1\<rparr>],
           r_zeroCrossings = [\<lparr>c_t = 0, c_idx = 0\<rparr>, \<lparr>c_t = 2000000, c_idx = 2\<rparr>, \<lparr>c_t = 4000000, c_idx = 4\<rparr>],
           r_meanVoltage = 0, r_avgPeriodUs = 2000000, r_isInverted = False\<rparr>
   \<and> [\<lparr>c_t = 0, c_idx = 0\<rparr>, \<lparr>c_t = 2000000, c_idx = 2\<rparr>, \<lparr>c_t = 4000000, c_idx = 4\<rparr>] \<noteq> []
   \<and> c_t ([\<lparr>c_t = 0, c_idx = 0\<rparr>, \<lparr>c_t = 2000000, c_idx = 2\<rparr>, \<lparr>c_t = 4000000, c_idx = 4\<rparr>] ! 0) = 0
   \<and> [-500000, 500000, 1500000, 2500000, 3500000, 4500000]
       = map (\<lambda>t. t - 500000) (prep_t_raw square_trace)
   \<and> [-1, 1, -1, 1, -1, 1] = map (\<lambda>u. u - 1) (prep_u_original square_trace False)"
proof -
  let ?r = "\<lparr>r_t = [-500000, 500000, 1500000, 2500000, 3500000, 4500000],
           r_u_raw = [-1, 1, -1, 1, -1, 1], r_u_smooth = [-1, 1, -1, 1, -1, 1],
           r_peaks = [\<lparr>p_x = 500000, p_y = 1\<rparr>, \<lparr>p_x = 2500000, p_y = 1\<rparr>],
           r_zeroCrossings = [\<lparr>c_t = 0, c_idx = 0\<rparr>, \<lparr>c_t = 2000000, c_idx = 2\<rparr>, \<lparr>c_t = 4000000, c_idx = 4\<rparr>],
           r_meanVoltage = 0, r_avgPeriodUs = 2000000, r_isInverted = False\<rparr>"
  have ne: "r_zeroCrossings ?r \<noteq> []" by simp
  note ni = normalization_invariant [OF ex_processed ne]
  have m: "calc_meanVoltage (smoothSignal (prep_u_original square_trace False) 1) = 1"
    by (simp only: ex_u ex_mean)
  have v: "lock_validCrossings
         (find_rawCrossings (prep_t_raw square_trace)
            (smoothSignal (prep_u_original square_trace False) 1) 1)
         (10 / 100)
       = [\<lparr>c_t = 500000, c_idx = 0\<rparr>, \<lparr>c_t = 2500000, c_idx = 2\<rparr>, \<lparr>c_t = 4500000, c_idx = 4\<rparr>]"
    by (simp only: ex_t ex_u ex_raw ex_valid)
  note ni' = ni [unfolded Let_def m v]
  from ni' have a: "c_t (r_zeroCrossings ?r ! 0) = 0" by blast
  from ni' have b: "r_t ?r = map (\<lambda>t. t - c_t ([\<lparr>c_t = 500000, c_idx = 0\<rparr>, \<lparr>c_t = 2500000, c_idx = 2\<rparr>, \<lparr>c_t = 4500000, c_idx = 4\<rparr>] ! 0)) (prep_t_raw square_trace)"
    by blast
  from ni' have c: "r_u_raw ?r = map (\<lambda>u. u - 1) (prep_u_original square_trace False)"
    by blast
  from ex_processed ne a b c show ?thesis by simp
qed

end
